theory Spec2Isabelle
  imports Complex_Main "HOL-Library.Log_Nat"
begin

section \<open>Numbers and strings\<close>

text \<open>
  The dashboard's numbers are JavaScript numbers, finite double-precision values. They are
  modelled as real numbers with exact arithmetic. Two differences between the two
  arithmetics are made explicit where a property depends on them: a division by zero
  (\<open>jsdiv\<close> below), and the rounding of the stretch, whose product with its own
  reciprocal is modelled in double precision in a section of its own. Strings are lists
  of 8-bit characters.
\<close>

text \<open>\<open>a || b\<close> on numbers: \<open>0\<close> is the only falsy finite number.\<close>

definition orDefault :: "real \<Rightarrow> real \<Rightarrow> real" where
  "orDefault a b = (if a = 0 then b else a)"

text \<open>\<open>a ?? b\<close> on a nullable number.\<close>

definition nullish :: "'a option \<Rightarrow> 'a option \<Rightarrow> 'a option" where
  "nullish a b = (case a of None \<Rightarrow> b | Some x \<Rightarrow> Some x)"

text \<open>\<open>\d\<close> of a regular expression: the ten ASCII digits.\<close>

definition isDigit :: "char \<Rightarrow> bool" where
  "isDigit c = (c \<in> set ''0123456789'')"

definition digitVal :: "char \<Rightarrow> nat" where
  "digitVal c = of_char c - 48"

text \<open>\<open>parseInt(ds, 10)\<close> on a string of digits, read from the left.\<close>

definition parseInt10 :: "string \<Rightarrow> nat" where
  "parseInt10 ds = foldl (\<lambda>n c. 10 * n + digitVal c) 0 ds"

text \<open>
  The white space that \<open>String.prototype.trim\<close> removes, within the 8-bit range: tab,
  line feed, vertical tab, form feed, carriage return, space and no-break space.
\<close>

definition isSpace :: "char \<Rightarrow> bool" where
  "isSpace c = (c \<in> {CHR 0x09, CHR 0x0A, CHR 0x0B, CHR 0x0C, CHR 0x0D, CHR 0x20, CHR 0xA0})"

definition trim :: "string \<Rightarrow> string" where
  "trim s = rev (dropWhile isSpace (rev (dropWhile isSpace s)))"

text \<open>\<open>ds.padEnd(3, "0")\<close>.\<close>

definition padEnd3 :: "string \<Rightarrow> string" where
  "padEnd3 ds = ds @ replicate (3 - length ds) CHR ''0''"

section \<open>Time-delta parser\<close>

text \<open>
  \<open>/[0-9]+L/i.test(s)\<close>: the pattern is not anchored, so it holds as soon as a digit is
  directly followed by \<open>L\<close> or \<open>l\<close> anywhere in the string.
\<close>

fun lapsBehind :: "string \<Rightarrow> bool" where
  "lapsBehind (a # b # cs) =
     ((isDigit a \<and> (b = CHR ''L'' \<or> b = CHR ''l'')) \<or> lapsBehind (b # cs))"
| "lapsBehind _ = False"

text \<open>
  The tail \<open>(?:\.(\d{1,3}))?$\<close> of both patterns, matched against what is left of the
  string: \<open>Some None\<close> when nothing is left, \<open>Some (Some f)\<close> when a dot and one to three
  digits \<open>f\<close> are left, \<open>None\<close> when the tail does not match.
\<close>

definition matchFraction :: "string \<Rightarrow> string option option" where
  "matchFraction r =
     (case r of
        [] \<Rightarrow> Some None
      | c # f \<Rightarrow>
          if c = CHR ''.'' \<and> 1 \<le> length f \<and> length f \<le> 3 \<and> list_all isDigit f
          then Some (Some f) else None)"

text \<open>
  \<open>v.match(/^(\d+):(\d{1,2})(?:\.(\d{1,3}))?$/)\<close>: the groups (minutes, seconds, optional
  fraction), or \<open>None\<close> when the match is null. The first group is the longest run of
  leading digits, since the colon has to follow it; likewise the second.
\<close>

definition matchHms :: "string \<Rightarrow> (string \<times> string \<times> string option) option" where
  "matchHms v =
     (let m = takeWhile isDigit v; r = dropWhile isDigit v in
      if m = [] then None
      else case r of
        [] \<Rightarrow> None
      | c # r1 \<Rightarrow>
          if c \<noteq> CHR '':'' then None
          else let s = takeWhile isDigit r1; r2 = dropWhile isDigit r1 in
            if length s < 1 \<or> 2 < length s then None
            else (case matchFraction r2 of
                    None \<Rightarrow> None
                  | Some fo \<Rightarrow> Some (m, s, fo)))"

text \<open>\<open>v.match(/^(\d+)(?:\.(\d{1,3}))?$/)\<close>: the groups (seconds, optional fraction).\<close>

definition matchSs :: "string \<Rightarrow> (string \<times> string option) option" where
  "matchSs v =
     (let s = takeWhile isDigit v; r = dropWhile isDigit v in
      if s = [] then None
      else case matchFraction r of
        None \<Rightarrow> None
      | Some fo \<Rightarrow> Some (s, fo))"

text \<open>\<open>g ? parseInt(g.padEnd(3, "0"), 10) : 0\<close> for an optional fraction group.\<close>

definition millis :: "string option \<Rightarrow> nat" where
  "millis fo = (case fo of None \<Rightarrow> 0 | Some f \<Rightarrow> if f = [] then 0 else parseInt10 (padEnd3 f))"

definition startsWith :: "string \<Rightarrow> char \<Rightarrow> bool" where
  "startsWith s c = (case s of [] \<Rightarrow> False | a # _ \<Rightarrow> a = c)"

text \<open>\<open>s.replace(/^[-+]/, "")\<close>.\<close>

definition stripSign :: "string \<Rightarrow> string" where
  "stripSign s =
     (case s of [] \<Rightarrow> [] | a # r \<Rightarrow> if a = CHR ''-'' \<or> a = CHR ''+'' then r else s)"

text \<open>
  \<open>parseSeconds\<close>, the same function in both visualizations. The argument is \<open>None\<close> for
  an absent (\<open>undefined\<close>) input; the result is \<open>None\<close> for \<open>null\<close>.
\<close>

definition parseSeconds :: "string option \<Rightarrow> real option" where
  "parseSeconds input =
     (case input of
        None \<Rightarrow> None
      | Some raw \<Rightarrow>
          if raw = [] then None
          else let s = trim raw in
            if lapsBehind s then None
            else if \<not> startsWith s CHR ''+'' \<and> \<not> startsWith s CHR ''-'' then None
            else let sign = (if startsWith s CHR ''-'' then (- 1 :: real) else 1);
                     v = stripSign s in
              (case matchHms v of
                 Some (gm, gs, gf) \<Rightarrow>
                   Some (sign * (real (parseInt10 gm) * 60 + real (parseInt10 gs)
                                 + real (millis gf) / 1000))
               | None \<Rightarrow>
                   (case matchSs v of
                      Some (gs, gf) \<Rightarrow>
                        Some (sign * (real (parseInt10 gs) + real (millis gf) / 1000))
                    | None \<Rightarrow> None)))"

text \<open>
  The grammar of the specification, stated on the text that follows the sign:
  \<open>minutes:seconds[.fraction]\<close> with one or more digits of minutes, one or two digits of
  seconds and a fraction of one to three digits, and \<open>seconds[.fraction]\<close> alone with one
  or more digits of seconds and the same fraction rule.
\<close>

definition fractionOk :: "string option \<Rightarrow> bool" where
  "fractionOk fo =
     (case fo of None \<Rightarrow> True
      | Some f \<Rightarrow> 1 \<le> length f \<and> length f \<le> 3 \<and> list_all isDigit f)"

definition fractionText :: "string option \<Rightarrow> string" where
  "fractionText fo = (case fo of None \<Rightarrow> [] | Some f \<Rightarrow> CHR ''.'' # f)"

definition minSecShape :: "string \<Rightarrow> string \<Rightarrow> string \<Rightarrow> string option \<Rightarrow> bool" where
  "minSecShape v m s fo =
     (v = m @ CHR '':'' # s @ fractionText fo \<and> 1 \<le> length m \<and> list_all isDigit m
      \<and> 1 \<le> length s \<and> length s \<le> 2 \<and> list_all isDigit s \<and> fractionOk fo)"

definition secShape :: "string \<Rightarrow> string \<Rightarrow> string option \<Rightarrow> bool" where
  "secShape v s fo =
     (v = s @ fractionText fo \<and> 1 \<le> length s \<and> list_all isDigit s \<and> fractionOk fo)"

text \<open>
  The milliseconds of a fraction as the specification words them: the digits padded on the
  right with zeros to thousandths, so that one digit counts hundreds of milliseconds.
\<close>

definition thousandths :: "string option \<Rightarrow> nat" where
  "thousandths fo =
     (case fo of None \<Rightarrow> 0 | Some f \<Rightarrow> parseInt10 f * 10 ^ (3 - length f))"

text \<open>
  The laps-behind pattern of the specification: somewhere in the text, one or more digits
  followed by the letter L in either case.
\<close>

definition lapsPattern :: "string \<Rightarrow> bool" where
  "lapsPattern s =
     (\<exists>pre ds c post. s = pre @ ds @ c # post \<and> ds \<noteq> [] \<and> list_all isDigit ds
        \<and> (c = CHR ''L'' \<or> c = CHR ''l''))"

definition signedDelta :: "string \<Rightarrow> bool" where
  "signedDelta s = (case s of [] \<Rightarrow> False | c # _ \<Rightarrow> c = CHR ''+'' \<or> c = CHR ''-'')"

definition signOf :: "string \<Rightarrow> real" where
  "signOf s = (if hd s = CHR ''-'' then - 1 else 1)"

section \<open>Timing snapshot\<close>

text \<open>
  The fields of a timing line that the gap engine reads. Every signal is optional; the
  objects \<open>intervalToPositionAhead\<close>, \<open>lastLapTime\<close> and \<open>bestLapTime\<close> are read only
  through their \<open>value\<close>.
\<close>

record stat =
  stat_timeDiffToFastest :: "string option"
  stat_timeDifftoPositionAhead :: "string option"

record timingValue =
  value_of :: "string option"

record driver =
  racingNumber :: string
  gapToLeader :: "string option"
  intervalToPositionAhead :: "timingValue option"
  stats :: "stat list option"
  timeDiffToFastest :: "string option"
  timeDiffToPositionAhead :: "string option"
  lastLapTime :: "timingValue option"
  bestLapTime :: "timingValue option"

section \<open>Gap reconstruction\<close>

text \<open>
  \<open>d.stats && sessionPart ? d.stats[Math.max(0, sessionPart - 1)] : undefined\<close>: the entry
  of \<open>stats\<close> that the session part selects. An absent \<open>stats\<close>, an absent session part
  and the session part \<open>0\<close> are falsy; an index beyond the array reads \<open>undefined\<close>.
\<close>

definition statsEntry :: "driver \<Rightarrow> int option \<Rightarrow> stat option" where
  "statsEntry d sessionPart =
     (case stats d of
        None \<Rightarrow> None
      | Some ss \<Rightarrow>
          (case sessionPart of
             None \<Rightarrow> None
           | Some p \<Rightarrow>
               if p = 0 then None
               else let i = nat (max 0 (p - 1)) in
                 if i < length ss then Some (ss ! i) else None))"

definition getGapToLeaderSeconds :: "driver \<Rightarrow> int option \<Rightarrow> real option" where
  "getGapToLeaderSeconds d sessionPart =
     nullish
       (nullish (parseSeconds (gapToLeader d))
          (parseSeconds (Option.bind (statsEntry d sessionPart) stat_timeDiffToFastest)))
       (parseSeconds (timeDiffToFastest d))"

definition getIntervalAheadSeconds :: "driver \<Rightarrow> int option \<Rightarrow> real option" where
  "getIntervalAheadSeconds d sessionPart =
     nullish
       (nullish (parseSeconds (Option.bind (intervalToPositionAhead d) value_of))
          (parseSeconds (Option.bind (statsEntry d sessionPart) stat_timeDifftoPositionAhead)))
       (parseSeconds (timeDiffToPositionAhead d))"

text \<open>
  The loop of \<open>computeGapsSeconds\<close> from index \<open>i\<close> on, on the map built so far. The gap
  of the driver ahead is read back from the map under that driver's racing number.
\<close>

function computeGaps_loop ::
  "driver list \<Rightarrow> int option \<Rightarrow> nat \<Rightarrow> (string \<rightharpoonup> real) \<Rightarrow> (string \<rightharpoonup> real)" where
  "computeGaps_loop ordered sessionPart i gaps =
     (if i < length ordered then
        (let d = ordered ! i in
         case getGapToLeaderSeconds d sessionPart of
           Some direct \<Rightarrow>
             computeGaps_loop ordered sessionPart (i + 1)
               (gaps(racingNumber d \<mapsto> max 0 direct))
         | None \<Rightarrow>
             (let prev = ordered ! (i - 1);
                  prevGap = (case gaps (racingNumber prev) of Some g \<Rightarrow> g | None \<Rightarrow> 0);
                  step = getIntervalAheadSeconds d sessionPart
              in computeGaps_loop ordered sessionPart (i + 1)
                   (gaps(racingNumber d \<mapsto>
                      max 0 (prevGap + (case step of Some s \<Rightarrow> s | None \<Rightarrow> 0))))))
      else gaps)"
  by pat_completeness auto
termination
  by (relation "measure (\<lambda>(ordered, sessionPart, i, gaps). length ordered - i)") auto

definition computeGapsSeconds :: "driver list \<Rightarrow> int option \<Rightarrow> (string \<rightharpoonup> real)" where
  "computeGapsSeconds ordered sessionPart =
     (if length ordered = 0 then Map.empty
      else computeGaps_loop ordered sessionPart 1 [racingNumber (ordered ! 0) \<mapsto> 0])"

text \<open>
  The reconstruction as the specification words it, a fold from the leader down the rank
  order that carries the previous driver's final gap. The \<open>stats\<close> tier is consulted
  whenever a session part is given.
\<close>

definition spec_statsEntry :: "driver \<Rightarrow> int option \<Rightarrow> stat option" where
  "spec_statsEntry d sessionPart =
     (case sessionPart of
        None \<Rightarrow> None
      | Some p \<Rightarrow>
          (case stats d of
             None \<Rightarrow> None
           | Some ss \<Rightarrow>
               let i = nat (max 0 (p - 1)) in
                 if i < length ss then Some (ss ! i) else None))"

fun firstParsed :: "string option list \<Rightarrow> real option" where
  "firstParsed [] = None"
| "firstParsed (c # cs) =
     (case parseSeconds c of Some v \<Rightarrow> Some v | None \<Rightarrow> firstParsed cs)"

definition spec_direct :: "driver \<Rightarrow> int option \<Rightarrow> real option" where
  "spec_direct d sessionPart =
     firstParsed
       [gapToLeader d,
        Option.bind (spec_statsEntry d sessionPart) stat_timeDiffToFastest,
        timeDiffToFastest d]"

definition spec_interval :: "driver \<Rightarrow> int option \<Rightarrow> real" where
  "spec_interval d sessionPart =
     (case firstParsed
        [Option.bind (intervalToPositionAhead d) value_of,
         Option.bind (spec_statsEntry d sessionPart) stat_timeDifftoPositionAhead,
         timeDiffToPositionAhead d]
      of Some v \<Rightarrow> v | None \<Rightarrow> 0)"

definition spec_resolve :: "real \<Rightarrow> driver \<Rightarrow> int option \<Rightarrow> real" where
  "spec_resolve prevGap d sessionPart =
     (case spec_direct d sessionPart of
        Some direct \<Rightarrow> max 0 direct
      | None \<Rightarrow> max 0 (prevGap + spec_interval d sessionPart))"

fun spec_chain :: "real \<Rightarrow> driver list \<Rightarrow> int option \<Rightarrow> real list" where
  "spec_chain prevGap [] sessionPart = []"
| "spec_chain prevGap (d # ds) sessionPart =
     spec_resolve prevGap d sessionPart
       # spec_chain (spec_resolve prevGap d sessionPart) ds sessionPart"

definition spec_gaps :: "driver list \<Rightarrow> int option \<Rightarrow> real list" where
  "spec_gaps ordered sessionPart =
     (case ordered of [] \<Rightarrow> [] | leader # ds \<Rightarrow> 0 # spec_chain 0 ds sessionPart)"

definition spec_reconstruct :: "driver list \<Rightarrow> int option \<Rightarrow> (string \<rightharpoonup> real)" where
  "spec_reconstruct ordered sessionPart =
     Map.empty (map racingNumber ordered [\<mapsto>] spec_gaps ordered sessionPart)"

section \<open>Scale configuration\<close>

datatype scaleType = piecewise | spread | fixed

record settings =
  circleScale :: scaleType
  circleG1 :: real
  circleG2 :: real
  circleFixedSeconds :: real
  circleTopN :: int

text \<open>The defaults of the settings store.\<close>

definition defaultSettings :: settings where
  "defaultSettings =
     \<lparr>circleScale = piecewise, circleG1 = 3, circleG2 = 15,
      circleFixedSeconds = 30, circleTopN = 0\<rparr>"

text \<open>
  \<open>visible\<close>, the same in both visualizations:
  \<open>n = topN && topN > 0 ? Math.min(topN, ordered.length) : ordered.length\<close>, then
  \<open>ordered.slice(0, n)\<close>.
\<close>

definition visible :: "int \<Rightarrow> driver list \<Rightarrow> driver list" where
  "visible topN ordered =
     (let n = (if topN \<noteq> 0 \<and> topN > 0 then min topN (int (length ordered))
               else int (length ordered))
      in take (nat n) ordered)"

text \<open>The effective thresholds, the same in both visualizations.\<close>

definition G1 :: "settings \<Rightarrow> real" where
  "G1 st = max 0.5 (min (orDefault (circleG1 st) 3) (orDefault (circleG2 st) 15))"

definition G2 :: "settings \<Rightarrow> real" where
  "G2 st = max (G1 st + 0.5) (orDefault (circleG2 st) 15)"

text \<open>\<open>gaps.get(d.racingNumber) ?? 0\<close>.\<close>

definition gapOf :: "(string \<rightharpoonup> real) \<Rightarrow> driver \<Rightarrow> real" where
  "gapOf gaps d = (case gaps (racingNumber d) of Some g \<Rightarrow> g | None \<Rightarrow> 0)"

section \<open>Vertical of Doom\<close>

text \<open>
  \<open>spreadSeconds\<close>. \<open>Math.max\<close> of a non-empty argument list is the maximum of its
  values; the filter on \<open>Number.isFinite\<close> keeps every value of the model.
\<close>

definition spreadSeconds :: "driver list \<Rightarrow> (string \<rightharpoonup> real) \<Rightarrow> real" where
  "spreadSeconds vis gaps =
     (let values = map (gapOf gaps) vis
      in if values \<noteq> [] then Max (set values) else 0)"

text \<open>
  \<open>mapGapToUnit\<close>; the callback closes over the scale settings and \<open>spreadSeconds\<close>,
  which are its first two arguments here.
\<close>

definition mapGapToUnit :: "settings \<Rightarrow> real \<Rightarrow> real \<Rightarrow> real" where
  "mapGapToUnit st spreadSec gap =
     (if gap \<le> 0 then 0
      else if circleScale st = piecewise then
        (if gap \<le> G1 st then (gap / G1 st) * 0.7
         else if gap \<le> G2 st then 0.7 + ((gap - G1 st) / (G2 st - G1 st)) * 0.3
         else 1)
      else
        (let base = (if circleScale st = fixed
                     then max 1 (orDefault (circleFixedSeconds st) 30)
                     else max 1 (orDefault spreadSec 1))
         in min 1 (gap / base)))"



text \<open>\<open>piecewiseStretch\<close>; \<open>Math.max(...values, 0)\<close> is the maximum of the values and 0.\<close>

definition piecewiseStretch :: "settings \<Rightarrow> driver list \<Rightarrow> (string \<rightharpoonup> real) \<Rightarrow> real" where
  "piecewiseStretch st vis gaps =
     (if circleScale st \<noteq> piecewise then 1
      else let maxGap = Max (set (map (gapOf gaps) vis @ [0]));
               base = mapGapToUnit st (spreadSeconds vis gaps) maxGap
           in if base \<le> 0 \<or> base \<ge> 1 then 1 else 1 / base)"

text \<open>
  The effective denominator \<open>baseSec\<close> that classifies a driver as over the maximum.
\<close>

definition baseSec :: "settings \<Rightarrow> real \<Rightarrow> real" where
  "baseSec st spreadSec =
     (if circleScale st = piecewise then G2 st
      else if circleScale st = fixed then max 1 (orDefault (circleFixedSeconds st) 30)
      else max 1 (orDefault spreadSec 1))"

text \<open>
  A dot of the vertical axis, with the fields that position it; the label, colour,
  favourite and DRS fields are presentation only.
\<close>

record Dot =
  dot_racingNumber :: string
  dot_y :: real
  dot_gap :: real
  dot_overMax :: bool

definition dots :: "settings \<Rightarrow> driver list \<Rightarrow> (string \<rightharpoonup> real) \<Rightarrow> Dot list" where
  "dots st vis gaps =
     map (\<lambda>d.
        let gap = gapOf gaps d;
            u = mapGapToUnit st (spreadSeconds vis gaps) gap
                  * (if circleScale st = piecewise then piecewiseStretch st vis gaps else 1)
        in \<lparr>dot_racingNumber = racingNumber d, dot_y = min 1 u, dot_gap = gap,
            dot_overMax = (gap > baseSec st (spreadSeconds vis gaps))\<rparr>) vis"

text \<open>
  The unit at which \<open>pushTick\<close> draws the tick of \<open>sec\<close> seconds: the mapping, the
  stretch and the clamp, the same expression as for a dot.
\<close>

definition pushTick_unit :: "settings \<Rightarrow> driver list \<Rightarrow> (string \<rightharpoonup> real) \<Rightarrow> real \<Rightarrow> real" where
  "pushTick_unit st vis gaps sec =
     (let u = mapGapToUnit st (spreadSeconds vis gaps) sec
                * (if circleScale st = piecewise then piecewiseStretch st vis gaps else 1)
      in min 1 u)"

text \<open>The component: order, gaps, visible set and dots of one snapshot.\<close>

definition verticalDots :: "settings \<Rightarrow> driver list \<Rightarrow> int option \<Rightarrow> Dot list" where
  "verticalDots st ordered sessionPart =
     dots st (visible (circleTopN st) ordered) (computeGapsSeconds ordered sessionPart)"

text \<open>
  The raw unit of a visible driver, before the stretch, and the maximum raw unit over the
  visible drivers, as the specification words the stretch; the maximum is 0 for an empty
  visible set.
\<close>

definition rawUnit :: "settings \<Rightarrow> driver list \<Rightarrow> (string \<rightharpoonup> real) \<Rightarrow> driver \<Rightarrow> real" where
  "rawUnit st vis gaps d = mapGapToUnit st (spreadSeconds vis gaps) (gapOf gaps d)"

definition maxRawUnit :: "settings \<Rightarrow> driver list \<Rightarrow> (string \<rightharpoonup> real) \<Rightarrow> real" where
  "maxRawUnit st vis gaps = (if vis = [] then 0 else Max (rawUnit st vis gaps ` set vis))"

text \<open>
  The maximum reconstructed gap among the visible drivers, as the specification words the
  spread denominator; it is 0 for an empty visible set.
\<close>

definition maxVisibleGap :: "driver list \<Rightarrow> (string \<rightharpoonup> real) \<Rightarrow> real" where
  "maxVisibleGap vis gaps = (if vis = [] then 0 else Max (gapOf gaps ` set vis))"

section \<open>Circle of Doom\<close>

text \<open>\<open>getLapSecondsForLeader\<close>; the leader is absent when the order is empty.\<close>

definition getLapSecondsForLeader :: "driver option \<Rightarrow> real" where
  "getLapSecondsForLeader leader =
     (let last = parseSeconds (Option.bind (Option.bind leader lastLapTime) value_of);
          best = parseSeconds (Option.bind (Option.bind leader bestLapTime) value_of)
      in case last of
           Some l \<Rightarrow>
             if l \<noteq> 0 \<and> l > 10 then l
             else (case best of
                     Some b \<Rightarrow> if b \<noteq> 0 \<and> b > 10 then b else 90
                   | None \<Rightarrow> 90)
         | None \<Rightarrow>
             (case best of
                Some b \<Rightarrow> if b \<noteq> 0 \<and> b > 10 then b else 90
              | None \<Rightarrow> 90))"

definition spreadSeconds_circle :: "driver list \<Rightarrow> (string \<rightharpoonup> real) \<Rightarrow> real \<Rightarrow> real" where
  "spreadSeconds_circle vis gaps lapSeconds =
     (let values = map (gapOf gaps) vis;
          mx = (if values \<noteq> [] then Max (set values) else 0)
      in if mx > 0 then mx else orDefault lapSeconds 90)"

text \<open>\<open>mapGapToAngle\<close>, closing over the scale settings and the circle's \<open>spreadSeconds\<close>.\<close>

definition mapGapToAngle :: "settings \<Rightarrow> real \<Rightarrow> real \<Rightarrow> real" where
  "mapGapToAngle st spreadSec gap =
     (if gap \<le> 0 then 0
      else if circleScale st = piecewise then
        (if gap \<le> G1 st then (gap / G1 st) * 240
         else if gap \<le> G2 st then 240 + ((gap - G1 st) / (G2 st - G1 st)) * 120
         else 360)
      else
        (let base = (if circleScale st = fixed
                     then max 1 (orDefault (circleFixedSeconds st) 30)
                     else spreadSec)
         in min 360 ((gap / base) * 360)))"

text \<open>
  The circle's spread denominator of one snapshot: the leader is the first ordered driver.
\<close>

definition circleSpread :: "settings \<Rightarrow> driver list \<Rightarrow> int option \<Rightarrow> real" where
  "circleSpread st ordered sessionPart =
     spreadSeconds_circle (visible (circleTopN st) ordered)
       (computeGapsSeconds ordered sessionPart)
       (getLapSecondsForLeader (case ordered of [] \<Rightarrow> None | leader # _ \<Rightarrow> Some leader))"

section \<open>The stretch in double precision\<close>

text \<open>
  Double precision: 53 significant bits, round to nearest, ties to even. The exponent
  range is not bounded here, so overflow and subnormal numbers are outside the model.
  \<open>pow2 e\<close> is the power of two with an integer exponent, \<open>binExponent x\<close> the
  exponent \<open>e\<close> of a positive \<open>x\<close> with \<open>2^e \<le> x < 2^(e+1)\<close>, \<open>roundEven\<close> the nearest
  integer with ties to the even one, and \<open>fl x\<close> the double nearest to \<open>x\<close>.
\<close>

definition pow2 :: "int \<Rightarrow> real" where
  "pow2 e = (if 0 \<le> e then 2 ^ nat e else 1 / 2 ^ nat (- e))"

definition binExponent :: "real \<Rightarrow> int" where
  "binExponent x =
     (if 1 \<le> x then int (floorlog 2 (nat \<lfloor>x\<rfloor>)) - 1
      else - int (floorlog 2 (nat \<lceil>1 / x\<rceil> - 1)))"

definition roundEven :: "real \<Rightarrow> int" where
  "roundEven t =
     (let n = \<lfloor>t\<rfloor>; r = t - of_int n
      in if r < 1 / 2 then n else if 1 / 2 < r then n + 1 else if even n then n else n + 1)"

definition fl :: "real \<Rightarrow> real" where
  "fl x =
     (if x = 0 then 0
      else let a = \<bar>x\<bar>; u = pow2 (binExponent a - 52)
           in sgn x * (of_int (roundEven (a / u)) * u))"

text \<open>
  The mapper of the vertical axis with every arithmetic operation rounded to a double,
  operation by operation as the source evaluates it. The decimal literals 0.7 and 0.3 are
  the doubles nearest to them; 0.5, 1, 3, 15 and 30 are doubles exactly, and \<open>Math.max\<close>,
  \<open>Math.min\<close> and the comparisons are exact. The settings and the gaps are doubles.
\<close>

definition G2_double :: "settings \<Rightarrow> real" where
  "G2_double st = max (fl (G1 st + 0.5)) (orDefault (circleG2 st) 15)"

definition mapGapToUnit_double :: "settings \<Rightarrow> real \<Rightarrow> real \<Rightarrow> real" where
  "mapGapToUnit_double st spreadSec gap =
     (if gap \<le> 0 then 0
      else if circleScale st = piecewise then
        (if gap \<le> G1 st then fl (fl (gap / G1 st) * fl 0.7)
         else if gap \<le> G2_double st
           then fl (fl 0.7
                    + fl (fl (fl (gap - G1 st) / fl (G2_double st - G1 st)) * fl 0.3))
         else 1)
      else
        (let base = (if circleScale st = fixed
                     then max 1 (orDefault (circleFixedSeconds st) 30)
                     else max 1 (orDefault spreadSec 1))
         in min 1 (fl (gap / base))))"

definition piecewiseStretch_double ::
  "settings \<Rightarrow> driver list \<Rightarrow> (string \<rightharpoonup> real) \<Rightarrow> real" where
  "piecewiseStretch_double st vis gaps =
     (if circleScale st \<noteq> piecewise then 1
      else let maxGap = Max (set (map (gapOf gaps) vis @ [0]));
               base = mapGapToUnit_double st (spreadSeconds vis gaps) maxGap
           in if base \<le> 0 \<or> base \<ge> 1 then 1 else fl (1 / base))"

text \<open>The \<open>y\<close> of the dot of driver \<open>d\<close> in double arithmetic.\<close>

definition dot_y_double ::
  "settings \<Rightarrow> driver list \<Rightarrow> (string \<rightharpoonup> real) \<Rightarrow> driver \<Rightarrow> real" where
  "dot_y_double st vis gaps d =
     (let gap = gapOf gaps d;
          u = fl (mapGapToUnit_double st (spreadSeconds vis gaps) gap
                  * (if circleScale st = piecewise then piecewiseStretch_double st vis gaps
                     else 1))
      in min 1 u)"

text \<open>
  The largest gap among the visible drivers, and 0 when nobody is visible or every gap is
  negative: the \<open>maxGap\<close> of \<open>piecewiseStretch\<close>. The farthest-back visible driver is the
  one whose gap it is.
\<close>

definition farthestGap :: "driver list \<Rightarrow> (string \<rightharpoonup> real) \<Rightarrow> real" where
  "farthestGap vis gaps = Max (set (map (gapOf gaps) vis @ [0]))"

section \<open>Example snapshots\<close>

definition noSignals :: "string \<Rightarrow> driver" where
  "noSignals rn =
     \<lparr>racingNumber = rn, gapToLeader = None, intervalToPositionAhead = None, stats = None,
      timeDiffToFastest = None, timeDiffToPositionAhead = None, lastLapTime = None,
      bestLapTime = None\<rparr>"

text \<open>
  The three-driver field of the specification: the second driver has a direct gap, the
  third only an interval to the car ahead.
\<close>

definition example_field :: "driver list" where
  "example_field =
     [noSignals ''1'',
      (noSignals ''44'')\<lparr>gapToLeader := Some ''+1.0''\<rparr>,
      (noSignals ''16'')\<lparr>intervalToPositionAhead := Some \<lparr>value_of = Some ''+0.5''\<rparr>\<rparr>]"

text \<open>A field whose second driver has only the \<open>stats\<close> entry of the first session part.\<close>

definition example_stats_field :: "driver list" where
  "example_stats_field =
     [noSignals ''1'',
      (noSignals ''44'')\<lparr>stats :=
         Some [\<lparr>stat_timeDiffToFastest = Some ''+1.0'',
                stat_timeDifftoPositionAhead = None\<rparr>]\<rparr>]"

text \<open>Two-driver fields whose second driver is 20, 5, 7 and 0.5 seconds behind.\<close>

definition example_far_field :: "driver list" where
  "example_far_field = [noSignals ''1'', (noSignals ''44'')\<lparr>gapToLeader := Some ''+20.0''\<rparr>]"

definition example_mid_field :: "driver list" where
  "example_mid_field = [noSignals ''1'', (noSignals ''44'')\<lparr>gapToLeader := Some ''+5.0''\<rparr>]"

definition example_seven_field :: "driver list" where
  "example_seven_field = [noSignals ''1'', (noSignals ''44'')\<lparr>gapToLeader := Some ''+7.0''\<rparr>]"

definition example_close_field :: "driver list" where
  "example_close_field = [noSignals ''1'', (noSignals ''44'')\<lparr>gapToLeader := Some ''+0.5''\<rparr>]"

text \<open>The session part as the code reads it: \<open>0\<close> is falsy and counts as not given.\<close>

definition effectivePart :: "int option \<Rightarrow> int option" where
  "effectivePart sessionPart = (if sessionPart = Some 0 then None else sessionPart)"

section \<open>Properties of the time-delta parser\<close>

subsection \<open>The matchers recognise the grammar\<close>

lemma matchFraction_iff:
  "matchFraction r = Some fo \<longleftrightarrow> r = fractionText fo \<and> fractionOk fo"
  by (cases r; cases fo) (auto simp: matchFraction_def fractionText_def fractionOk_def)

lemma not_digit_colon [simp]: "\<not> isDigit CHR '':''" "\<not> isDigit CHR ''.''"
  by (simp_all add: isDigit_def)

lemma span_digits:
  assumes "list_all isDigit ds" and "r = [] \<or> \<not> isDigit (hd r)"
  shows "takeWhile isDigit (ds @ r) = ds" and "dropWhile isDigit (ds @ r) = r"
  using assms by (cases r; auto simp: list_all_iff takeWhile_append2 dropWhile_append2)+

lemma fractionText_head: "fractionText fo = [] \<or> \<not> isDigit (hd (fractionText fo))"
  by (cases fo) (simp_all add: fractionText_def)

lemma matchHms_iff:
  "matchHms v = Some (m, s, fo) \<longleftrightarrow> minSecShape v m s fo"
proof
  assume h: "matchHms v = Some (m, s, fo)"
  define r where "r = dropWhile isDigit v"
  have v: "v = takeWhile isDigit v @ r" by (simp add: r_def)
  from h obtain r1 where r: "r = CHR '':'' # r1" and m: "m = takeWhile isDigit v" "m \<noteq> []"
    and s: "s = takeWhile isDigit r1" "1 \<le> length s" "length s \<le> 2"
    and f: "matchFraction (dropWhile isDigit r1) = Some fo"
    unfolding matchHms_def r_def Let_def
    by (auto simp: Suc_le_eq not_less split: if_splits list.splits option.splits)
  have "r1 = s @ dropWhile isDigit r1" by (simp add: s)
  with f have "r1 = s @ fractionText fo" and "fractionOk fo"
    by (simp_all add: matchFraction_iff)
  moreover have "list_all isDigit m" "list_all isDigit s"
    unfolding m s list_all_iff by (auto dest: set_takeWhileD)
  ultimately show "minSecShape v m s fo"
    using v r m s unfolding minSecShape_def by (auto simp: Suc_le_eq)
next
  assume h: "minSecShape v m s fo"
  then have v: "v = m @ CHR '':'' # s @ fractionText fo" and m: "m \<noteq> []" "list_all isDigit m"
    and s: "1 \<le> length s" "length s \<le> 2" "list_all isDigit s" and f: "fractionOk fo"
    unfolding minSecShape_def by auto
  have 1: "takeWhile isDigit v = m" "dropWhile isDigit v = CHR '':'' # s @ fractionText fo"
    unfolding v using span_digits [OF m(2), of "CHR '':'' # s @ fractionText fo"] by simp_all
  have 2: "takeWhile isDigit (s @ fractionText fo) = s"
    "dropWhile isDigit (s @ fractionText fo) = fractionText fo"
    using span_digits [OF s(3) fractionText_head] by simp_all
  have 3: "matchFraction (fractionText fo) = Some fo"
    using f by (simp add: matchFraction_iff)
  show "matchHms v = Some (m, s, fo)"
    using m s by (auto simp: matchHms_def Let_def 1 2 3 not_less)
qed

lemma matchSs_iff:
  "matchSs v = Some (s, fo) \<longleftrightarrow> secShape v s fo"
proof
  assume h: "matchSs v = Some (s, fo)"
  then have s: "s = takeWhile isDigit v" "s \<noteq> []"
    and f: "matchFraction (dropWhile isDigit v) = Some fo"
    unfolding matchSs_def Let_def by (auto split: if_splits option.splits)
  have "v = s @ dropWhile isDigit v" by (simp add: s)
  with f have "v = s @ fractionText fo" and "fractionOk fo"
    by (simp_all add: matchFraction_iff)
  moreover have "list_all isDigit s"
    unfolding s list_all_iff by (auto dest: set_takeWhileD)
  ultimately show "secShape v s fo"
    using s unfolding secShape_def by (auto simp: Suc_le_eq)
next
  assume h: "secShape v s fo"
  then have v: "v = s @ fractionText fo" and s: "s \<noteq> []" "list_all isDigit s"
    and f: "fractionOk fo"
    unfolding secShape_def by auto
  have 2: "takeWhile isDigit v = s" "dropWhile isDigit v = fractionText fo"
    unfolding v using span_digits [OF s(2) fractionText_head] by simp_all
  have 3: "matchFraction (fractionText fo) = Some fo"
    using f by (simp add: matchFraction_iff)
  show "matchSs v = Some (s, fo)"
    using s by (simp add: matchSs_def Let_def 2 3)
qed

lemma parseInt10_append:
  "parseInt10 (ds @ es) = foldl (\<lambda>n c. 10 * n + digitVal c) (parseInt10 ds) es"
  by (simp add: parseInt10_def)

lemma foldl_zeros:
  "foldl (\<lambda>n c. 10 * n + digitVal c) a (replicate k CHR ''0'') = a * 10 ^ k"
  by (induction k arbitrary: a) (simp_all add: digitVal_def)

lemma millis_thousandths: "fractionOk fo \<Longrightarrow> millis fo = thousandths fo"
  by (cases fo)
    (auto simp: millis_def thousandths_def fractionOk_def padEnd3_def parseInt10_append foldl_zeros)

subsection \<open>What the parser returns\<close>

lemma lapsBehind_letter:
  "lapsBehind s \<Longrightarrow> CHR ''L'' \<in> set s \<or> CHR ''l'' \<in> set s"
  by (induction s rule: lapsBehind.induct) auto

lemma digit_not_letter: "isDigit c \<Longrightarrow> c \<noteq> CHR ''L'' \<and> c \<noteq> CHR ''l'' \<and> c \<noteq> CHR '':''"
  by (auto simp: isDigit_def)

lemma fractionText_chars:
  "fractionOk fo \<Longrightarrow> c \<in> set (fractionText fo) \<Longrightarrow> isDigit c \<or> c = CHR ''.''"
  by (cases fo) (auto simp: fractionText_def fractionOk_def list_all_iff)

lemma minSecShape_chars:
  "minSecShape v m s fo \<Longrightarrow> c \<in> set v \<Longrightarrow> isDigit c \<or> c = CHR ''.'' \<or> c = CHR '':''"
  by (auto simp: minSecShape_def list_all_iff dest: fractionText_chars)

lemma secShape_chars:
  "secShape v s fo \<Longrightarrow> c \<in> set v \<Longrightarrow> isDigit c \<or> c = CHR ''.''"
  by (auto simp: secShape_def list_all_iff dest: fractionText_chars)

lemma signed_no_laps:
  assumes "signedDelta t" and "\<And>c. c \<in> set (tl t) \<Longrightarrow> isDigit c \<or> c = CHR ''.'' \<or> c = CHR '':''"
  shows "\<not> lapsBehind t"
proof
  assume "lapsBehind t"
  then have "CHR ''L'' \<in> set t \<or> CHR ''l'' \<in> set t" by (rule lapsBehind_letter)
  moreover from assms(1) obtain c v where t: "t = c # v" "c = CHR ''+'' \<or> c = CHR ''-''"
    by (cases t) (auto simp: signedDelta_def)
  ultimately have "CHR ''L'' \<in> set v \<or> CHR ''l'' \<in> set v" by auto
  with assms(2) t show False by (auto dest: digit_not_letter)
qed

lemma secShape_not_hms: "secShape v s fo \<Longrightarrow> matchHms v = None"
proof (rule ccontr)
  assume h: "secShape v s fo" and "matchHms v \<noteq> None"
  then obtain m' s' fo' where "matchHms v = Some (m', s', fo')" by auto
  then have "minSecShape v m' s' fo'" by (simp add: matchHms_iff)
  then have "CHR '':'' \<in> set v" by (simp add: minSecShape_def)
  with h show False by (auto dest: secShape_chars)
qed

lemma trim_Nil [simp]: "trim [] = []"
  by (simp add: trim_def)

lemma parseSeconds_signed:
  assumes "signedDelta (trim raw)" and "\<not> lapsBehind (trim raw)"
  shows "parseSeconds (Some raw) =
     (case matchHms (tl (trim raw)) of
        Some (gm, gs, gf) \<Rightarrow>
          Some (signOf (trim raw) * (real (parseInt10 gm) * 60 + real (parseInt10 gs)
                        + real (millis gf) / 1000))
      | None \<Rightarrow>
          (case matchSs (tl (trim raw)) of
             Some (gs, gf) \<Rightarrow>
               Some (signOf (trim raw) * (real (parseInt10 gs) + real (millis gf) / 1000))
           | None \<Rightarrow> None))"
proof -
  from assms(1) obtain c v where t: "trim raw = c # v" "c = CHR ''+'' \<or> c = CHR ''-''"
    by (cases "trim raw") (auto simp: signedDelta_def)
  then have "raw \<noteq> []" by auto
  with t assms(2) show ?thesis
    by (auto simp: parseSeconds_def Let_def startsWith_def stripSign_def signOf_def
        split: option.splits)
qed

lemma parseSeconds_unsigned:
  "\<not> signedDelta (trim raw) \<Longrightarrow> parseSeconds (Some raw) = None"
  by (auto simp: parseSeconds_def Let_def startsWith_def signedDelta_def split: list.splits)

lemma parseSeconds_laps:
  "lapsBehind (trim raw) \<Longrightarrow> parseSeconds (Some raw) = None"
  by (simp add: parseSeconds_def Let_def)

lemma parseSeconds_minSec:
  assumes "signedDelta (trim raw)" and "minSecShape (tl (trim raw)) m s fo"
  shows "parseSeconds (Some raw) =
    Some (signOf (trim raw) * (real (parseInt10 m) * 60 + real (parseInt10 s)
            + real (thousandths fo) / 1000))"
proof -
  have "\<not> lapsBehind (trim raw)"
    using assms(1) minSecShape_chars [OF assms(2)] by (rule signed_no_laps)
  moreover have "matchHms (tl (trim raw)) = Some (m, s, fo)"
    using assms(2) by (simp add: matchHms_iff)
  moreover have "millis fo = thousandths fo"
    using assms(2) by (simp add: minSecShape_def millis_thousandths)
  ultimately show ?thesis
    using assms(1) by (simp add: parseSeconds_signed)
qed

lemma parseSeconds_sec:
  assumes "signedDelta (trim raw)" and "secShape (tl (trim raw)) s fo"
  shows "parseSeconds (Some raw) =
    Some (signOf (trim raw) * (real (parseInt10 s) + real (thousandths fo) / 1000))"
proof -
  have "\<And>c. c \<in> set (tl (trim raw)) \<Longrightarrow> isDigit c \<or> c = CHR ''.'' \<or> c = CHR '':''"
    using secShape_chars [OF assms(2)] by blast
  with assms(1) have "\<not> lapsBehind (trim raw)"
    by (rule signed_no_laps)
  moreover have "matchSs (tl (trim raw)) = Some (s, fo)"
    using assms(2) by (simp add: matchSs_iff)
  moreover have "matchHms (tl (trim raw)) = None"
    using assms(2) by (rule secShape_not_hms)
  moreover have "millis fo = thousandths fo"
    using assms(2) by (simp add: secShape_def millis_thousandths)
  ultimately show ?thesis
    using assms(1) by (simp add: parseSeconds_signed)
qed

lemma parseSeconds_None_iff:
  "parseSeconds (Some raw) = None \<longleftrightarrow>
     raw = [] \<or> lapsBehind (trim raw) \<or> \<not> signedDelta (trim raw)
     \<or> (\<forall>m s fo. \<not> minSecShape (tl (trim raw)) m s fo \<and> \<not> secShape (tl (trim raw)) s fo)"
proof (cases "signedDelta (trim raw) \<and> \<not> lapsBehind (trim raw)")
  case False
  then show ?thesis
    by (auto simp: parseSeconds_unsigned parseSeconds_laps)
next
  case True
  then have ne: "raw \<noteq> []" by (auto simp: signedDelta_def)
  have "parseSeconds (Some raw) = None \<longleftrightarrow>
      matchHms (tl (trim raw)) = None \<and> matchSs (tl (trim raw)) = None"
    using True by (auto simp: parseSeconds_signed split: option.splits)
  also have "\<dots> \<longleftrightarrow>
      (\<forall>m s fo. \<not> minSecShape (tl (trim raw)) m s fo \<and> \<not> secShape (tl (trim raw)) s fo)"
    unfolding matchHms_iff [symmetric] matchSs_iff [symmetric]
    by (cases "matchHms (tl (trim raw))"; cases "matchSs (tl (trim raw))") auto
  finally show ?thesis using True ne by simp
qed

lemma lapsBehind_Cons: "lapsBehind s \<Longrightarrow> lapsBehind (a # s)"
  by (cases s) auto

lemma lapsBehind_append: "lapsBehind s \<Longrightarrow> lapsBehind (pre @ s)"
  by (induction pre) (auto intro: lapsBehind_Cons)

lemma lapsBehind_digits:
  "ds \<noteq> [] \<Longrightarrow> list_all isDigit ds \<Longrightarrow> c = CHR ''L'' \<or> c = CHR ''l'' \<Longrightarrow>
     lapsBehind (ds @ c # post)"
proof (induction ds)
  case Nil
  then show ?case by simp
next
  case (Cons d ds)
  then show ?case by (cases ds) auto
qed

lemma lapsBehind_pattern: "lapsBehind s \<longleftrightarrow> lapsPattern s"
  unfolding lapsPattern_def
proof
  show "lapsBehind s \<Longrightarrow>
     \<exists>pre ds c post. s = pre @ ds @ c # post \<and> ds \<noteq> [] \<and> list_all isDigit ds
        \<and> (c = CHR ''L'' \<or> c = CHR ''l'')"
  proof (induction s rule: lapsBehind.induct)
    case (1 a b cs)
    show ?case
    proof (cases "isDigit a \<and> (b = CHR ''L'' \<or> b = CHR ''l'')")
      case True
      then have "a # b # cs = [] @ [a] @ b # cs \<and> [a] \<noteq> [] \<and> list_all isDigit [a]
          \<and> (b = CHR ''L'' \<or> b = CHR ''l'')"
        by simp
      then show ?thesis by blast
    next
      case False
      then have "lapsBehind (b # cs)" using 1 by auto
      with False 1 obtain pre ds c post where
        "b # cs = pre @ ds @ c # post" "ds \<noteq> []" "list_all isDigit ds"
        "c = CHR ''L'' \<or> c = CHR ''l''"
        by blast
      then have "a # b # cs = (a # pre) @ ds @ c # post \<and> ds \<noteq> [] \<and> list_all isDigit ds
          \<and> (c = CHR ''L'' \<or> c = CHR ''l'')"
        by simp
      then show ?thesis by blast
    qed
  qed simp_all
next
  assume "\<exists>pre ds c post. s = pre @ ds @ c # post \<and> ds \<noteq> [] \<and> list_all isDigit ds
        \<and> (c = CHR ''L'' \<or> c = CHR ''l'')"
  then show "lapsBehind s"
    by (auto intro: lapsBehind_append lapsBehind_digits)
qed

lemma dropWhile_head: "xs \<noteq> [] \<Longrightarrow> \<not> P (hd xs) \<Longrightarrow> dropWhile P xs = xs"
  by (cases xs) simp_all

lemma trim_unpadded:
  "raw \<noteq> [] \<Longrightarrow> \<not> isSpace (hd raw) \<Longrightarrow> \<not> isSpace (last raw) \<Longrightarrow> trim raw = raw"
  by (simp add: trim_def dropWhile_head hd_rev)

text \<open>
  C2, as stated, fails: the parser trims white space before it looks for the sign, so an
  input that does not begin with a sign can still yield a value.
\<close>

theorem parseSeconds_leading_space_counterexample:
  "\<not> signedDelta '' +1.0'' \<and> parseSeconds (Some '' +1.0'') = Some 1"
  by code_simp

text \<open>
  C2, amended: on the input with surrounding white space trimmed, the parser returns no
  value exactly when the input is absent or empty, matches the laps-behind pattern, does
  not begin with a sign, or fits neither grammar after the sign; otherwise it returns
  sign * (minutes * 60 + seconds + milliseconds / 1000), a fraction shorter than three
  digits being padded with zeros on the right. An input without surrounding white space
  is its own trimmed text. The listed inputs evaluate as the claim says.
\<close>

theorem parseSeconds_trimmed_grammar:
  "parseSeconds None = None
   \<and> (parseSeconds (Some raw) = None \<longleftrightarrow>
        raw = [] \<or> lapsPattern (trim raw) \<or> \<not> signedDelta (trim raw)
        \<or> (\<forall>m s fo. \<not> minSecShape (tl (trim raw)) m s fo
                     \<and> \<not> secShape (tl (trim raw)) s fo))
   \<and> (signedDelta (trim raw) \<and> minSecShape (tl (trim raw)) m s fo \<longrightarrow>
        parseSeconds (Some raw) =
          Some (signOf (trim raw) * (real (parseInt10 m) * 60 + real (parseInt10 s)
                  + real (thousandths fo) / 1000)))
   \<and> (signedDelta (trim raw) \<and> secShape (tl (trim raw)) s fo \<longrightarrow>
        parseSeconds (Some raw) =
          Some (signOf (trim raw) * (real (parseInt10 s) + real (thousandths fo) / 1000)))
   \<and> (raw \<noteq> [] \<and> \<not> isSpace (hd raw) \<and> \<not> isSpace (last raw) \<longrightarrow> trim raw = raw)
   \<and> parseSeconds (Some ''+1:02.500'') = Some 62.5
   \<and> parseSeconds (Some ''-0.250'') = Some (- 0.25)
   \<and> parseSeconds (Some ''1L'') = None
   \<and> parseSeconds (Some ''1.234'') = None
   \<and> parseSeconds (Some ''+0.5'') = Some 0.5"
proof -
  have ex: "parseSeconds (Some ''+1:02.500'') = Some 62.5"
    "parseSeconds (Some ''-0.250'') = Some (- 0.25)"
    "parseSeconds (Some ''1L'') = None"
    "parseSeconds (Some ''1.234'') = None"
    "parseSeconds (Some ''+0.5'') = Some 0.5"
    by code_simp+
  have "parseSeconds None = None" by (simp add: parseSeconds_def)
  then show ?thesis
    using ex parseSeconds_None_iff [of raw, unfolded lapsBehind_pattern]
      parseSeconds_minSec [of raw m s fo]
      parseSeconds_sec [of raw s fo] trim_unpadded [of raw]
    by blast
qed

theorem parseSeconds_trimmed_grammar_witness:
  "signedDelta (trim '' +1:02.5'')
   \<and> minSecShape (tl (trim '' +1:02.5'')) ''1'' ''02'' (Some ''5'')
   \<and> parseSeconds (Some '' +1:02.5'') = Some 62.5
   \<and> signedDelta (trim ''-7.25'')
   \<and> secShape (tl (trim ''-7.25'')) ''7'' (Some ''25'')
   \<and> parseSeconds (Some ''-7.25'') = Some (- 7.25)"
proof -
  have t: "trim '' +1:02.5'' = ''+1:02.5''" "trim ''-7.25'' = ''-7.25''"
    by (simp_all add: trim_def isSpace_def)
  have h1: "signedDelta (trim '' +1:02.5'')"
    and h2: "minSecShape (tl (trim '' +1:02.5'')) ''1'' ''02'' (Some ''5'')"
    and h3: "signedDelta (trim ''-7.25'')"
    and h4: "secShape (tl (trim ''-7.25'')) ''7'' (Some ''25'')"
    unfolding t
    by (simp_all add: signedDelta_def minSecShape_def secShape_def fractionText_def
        fractionOk_def isDigit_def)
  have v1: "signOf (trim '' +1:02.5'') * (real (parseInt10 ''1'') * 60 + real (parseInt10 ''02'')
      + real (thousandths (Some ''5'')) / 1000) = 62.5"
    and v2: "signOf (trim ''-7.25'') * (real (parseInt10 ''7'')
      + real (thousandths (Some ''25'')) / 1000) = - 7.25"
    unfolding t by (simp_all add: signOf_def parseInt10_def thousandths_def digitVal_def)
  from parseSeconds_trimmed_grammar [of "'' +1:02.5''" "''1''" "''02''" "Some ''5''"] h1 h2
  have "parseSeconds (Some '' +1:02.5'') = Some 62.5"
    unfolding v1 [symmetric] by blast
  moreover from parseSeconds_trimmed_grammar [of "''-7.25''" _ "''7''" "Some ''25''"] h3 h4
  have "parseSeconds (Some ''-7.25'') = Some (- 7.25)"
    unfolding v2 [symmetric] by blast
  ultimately show ?thesis using h1 h2 h3 h4 by simp
qed

section \<open>Properties of the gap reconstruction\<close>

declare computeGaps_loop.simps [simp del]

lemma statsEntry_spec:
  "statsEntry d sp = spec_statsEntry d (if sp = Some 0 then None else sp)"
  by (auto simp: statsEntry_def spec_statsEntry_def Let_def split: option.splits)

lemma getGapToLeaderSeconds_spec:
  "getGapToLeaderSeconds d sp = spec_direct d (if sp = Some 0 then None else sp)"
  unfolding getGapToLeaderSeconds_def spec_direct_def statsEntry_spec
  by (simp add: nullish_def split: option.splits)

lemma getIntervalAheadSeconds_spec:
  "(case getIntervalAheadSeconds d sp of Some s \<Rightarrow> s | None \<Rightarrow> 0) =
     spec_interval d (if sp = Some 0 then None else sp)"
  unfolding getIntervalAheadSeconds_def spec_interval_def statsEntry_spec
  by (simp add: nullish_def split: option.splits)

lemma computeGaps_loop_step:
  assumes "pre \<noteq> []" and "gaps (racingNumber (last pre)) = Some g"
    and "sp' = (if sp = Some 0 then None else sp)"
  shows "computeGaps_loop (pre @ d # ds) sp (length pre) gaps =
      computeGaps_loop (pre @ d # ds) sp (length pre + 1)
        (gaps(racingNumber d \<mapsto> spec_resolve g d sp'))"
proof -
  have nth: "(pre @ d # ds) ! length pre = d" by simp
  have prev: "(pre @ d # ds) ! (length pre - 1) = last pre"
    using assms(1) by (simp add: nth_append last_conv_nth)
  have direct: "getGapToLeaderSeconds d sp = spec_direct d sp'"
    unfolding assms(3) by (rule getGapToLeaderSeconds_spec)
  have ival: "(case getIntervalAheadSeconds d sp of Some s \<Rightarrow> s | None \<Rightarrow> 0) = spec_interval d sp'"
    unfolding assms(3) by (rule getIntervalAheadSeconds_spec)
  show ?thesis
  proof (cases "spec_direct d sp'")
    case None
    then show ?thesis
      using assms(2)
      by (subst computeGaps_loop.simps)
        (simp only: nth prev direct ival Let_def spec_resolve_def, simp)
  next
    case (Some v)
    then show ?thesis
      by (subst computeGaps_loop.simps)
        (simp only: nth direct Let_def spec_resolve_def, simp)
  qed
qed

lemma computeGaps_loop_chain:
  assumes "pre \<noteq> []" and "gaps (racingNumber (last pre)) = Some g"
    and "sp' = (if sp = Some 0 then None else sp)"
  shows "computeGaps_loop (pre @ rest) sp (length pre) gaps =
     gaps (map racingNumber rest [\<mapsto>] spec_chain g rest sp')"
  using assms(1,2)
proof (induction rest arbitrary: pre gaps g)
  case Nil
  then show ?case by (subst computeGaps_loop.simps) simp
next
  case (Cons d ds)
  let ?v = "spec_resolve g d sp'"
  have "computeGaps_loop (pre @ d # ds) sp (length pre) gaps =
      computeGaps_loop (pre @ d # ds) sp (length pre + 1) (gaps(racingNumber d \<mapsto> ?v))"
    using Cons.prems assms(3) by (rule computeGaps_loop_step)
  moreover have "computeGaps_loop ((pre @ [d]) @ ds) sp (length (pre @ [d]))
        (gaps(racingNumber d \<mapsto> ?v)) =
      (gaps(racingNumber d \<mapsto> ?v)) (map racingNumber ds [\<mapsto>] spec_chain ?v ds sp')"
    by (rule Cons.IH) simp_all
  ultimately show ?case by simp
qed

lemma computeGapsSeconds_fold:
  "computeGapsSeconds ordered sp =
     spec_reconstruct ordered (if sp = Some 0 then None else sp)"
proof (cases ordered)
  case Nil
  then show ?thesis by (simp add: computeGapsSeconds_def spec_reconstruct_def spec_gaps_def)
next
  case (Cons leader ds)
  have "computeGaps_loop ([leader] @ ds) sp (length [leader]) [racingNumber leader \<mapsto> 0] =
     [racingNumber leader \<mapsto> 0] (map racingNumber ds [\<mapsto>]
        spec_chain 0 ds (if sp = Some 0 then None else sp))"
    by (rule computeGaps_loop_chain) simp_all
  then show ?thesis
    using Cons by (simp add: computeGapsSeconds_def spec_reconstruct_def spec_gaps_def)
qed

lemma spec_chain_length [simp]: "length (spec_chain g ds sp) = length ds"
  by (induction ds arbitrary: g) simp_all

lemma spec_gaps_length [simp]: "length (spec_gaps ordered sp) = length ordered"
  by (cases ordered) (simp_all add: spec_gaps_def)

lemma spec_chain_nth:
  "i < length ds \<Longrightarrow>
     spec_chain g ds sp ! i = spec_resolve ((g # spec_chain g ds sp) ! i) (ds ! i) sp"
proof (induction ds arbitrary: g i)
  case Nil
  then show ?case by simp
next
  case (Cons d ds)
  then show ?case by (cases i) simp_all
qed

lemma spec_gaps_Suc:
  "Suc i < length ordered \<Longrightarrow>
     spec_gaps ordered sp ! Suc i = spec_resolve (spec_gaps ordered sp ! i) (ordered ! Suc i) sp"
  by (cases ordered) (simp_all add: spec_gaps_def spec_chain_nth)

lemma spec_gaps_0: "0 < length ordered \<Longrightarrow> spec_gaps ordered sp ! 0 = 0"
  by (cases ordered) (simp_all add: spec_gaps_def)

lemma map_upds_distinct_nth:
  assumes "distinct ks" and "length ks = length vs" and "i < length ks"
  shows "(m (ks [\<mapsto>] vs)) (ks ! i) = Some (vs ! i)"
  using assms
proof (induction ks arbitrary: vs m i)
  case Nil
  then show ?case by simp
next
  case (Cons k ks)
  then obtain v vs' where vs: "vs = v # vs'" by (cases vs) auto
  show ?case
  proof (cases i)
    case 0
    then show ?thesis using Cons.prems vs by simp
  next
    case (Suc j)
    then have "ks ! j \<noteq> k" using Cons.prems vs by (auto dest: nth_mem)
    then show ?thesis using Suc Cons.prems vs Cons.IH [of vs' j] by simp
  qed
qed

lemma spec_reconstruct_nth:
  assumes "distinct (map racingNumber ordered)" and "i < length ordered"
  shows "spec_reconstruct ordered sp (racingNumber (ordered ! i)) = Some (spec_gaps ordered sp ! i)"
  using map_upds_distinct_nth [OF assms(1), of "spec_gaps ordered sp" i Map.empty] assms(2)
  by (simp add: spec_reconstruct_def)

lemma spec_reconstruct_dom:
  "dom (spec_reconstruct ordered sp) = racingNumber ` set ordered"
  by (simp add: spec_reconstruct_def)

text \<open>
  C1, as stated, fails for the session part 0: the claim consults the \<open>stats\<close> entry
  whenever a session part is given, and the code skips it when the session part is 0.
\<close>

theorem computeGapsSeconds_sessionPart_zero_counterexample:
  "computeGapsSeconds example_stats_field (Some 0) ''44'' = Some 0
   \<and> spec_reconstruct example_stats_field (Some 0) ''44'' = Some 1"
  by code_simp

text \<open>
  C1, amended: for every ordered driver list and optional session part,
  \<open>computeGapsSeconds\<close> is the left-to-right fold of the specification in which a
  session part of 0 counts as not given: the empty list yields the empty map; the map
  has one entry per racing number; with distinct racing numbers every driver maps to its
  resolved gap, which is 0 for the first driver whatever its signals, and for every later
  driver max(0, direct) for the first direct candidate that parses, else
  max(0, previous final gap + interval) with the interval 0 when none parses. In the
  three-driver example the third driver resolves to 1.5.
\<close>

theorem computeGapsSeconds_is_fold:
  "computeGapsSeconds [] sp = Map.empty
   \<and> computeGapsSeconds ordered sp = spec_reconstruct ordered (effectivePart sp)
   \<and> dom (computeGapsSeconds ordered sp) = racingNumber ` set ordered
   \<and> (distinct (map racingNumber ordered) \<longrightarrow>
        (\<forall>i < length ordered.
           computeGapsSeconds ordered sp (racingNumber (ordered ! i)) =
             Some (spec_gaps ordered (effectivePart sp) ! i)))
   \<and> (0 < length ordered \<longrightarrow> spec_gaps ordered (effectivePart sp) ! 0 = 0)
   \<and> (\<forall>i. Suc i < length ordered \<longrightarrow>
        spec_gaps ordered (effectivePart sp) ! Suc i =
          (case spec_direct (ordered ! Suc i) (effectivePart sp) of
             Some direct \<Rightarrow> max 0 direct
           | None \<Rightarrow>
               max 0 (spec_gaps ordered (effectivePart sp) ! i
                      + spec_interval (ordered ! Suc i) (effectivePart sp))))
   \<and> computeGapsSeconds example_field None ''16'' = Some 1.5"
proof -
  have fold: "computeGapsSeconds ordered sp = spec_reconstruct ordered (effectivePart sp)"
    unfolding effectivePart_def by (rule computeGapsSeconds_fold)
  have "computeGapsSeconds [] sp = Map.empty"
    by (simp add: computeGapsSeconds_def)
  moreover have "dom (computeGapsSeconds ordered sp) = racingNumber ` set ordered"
    unfolding fold by (rule spec_reconstruct_dom)
  moreover have "distinct (map racingNumber ordered) \<longrightarrow>
        (\<forall>i < length ordered.
           computeGapsSeconds ordered sp (racingNumber (ordered ! i)) =
             Some (spec_gaps ordered (effectivePart sp) ! i))"
    unfolding fold by (simp add: spec_reconstruct_nth)
  moreover have "0 < length ordered \<longrightarrow> spec_gaps ordered (effectivePart sp) ! 0 = 0"
    by (simp add: spec_gaps_0)
  moreover have "\<forall>i. Suc i < length ordered \<longrightarrow>
        spec_gaps ordered (effectivePart sp) ! Suc i =
          (case spec_direct (ordered ! Suc i) (effectivePart sp) of
             Some direct \<Rightarrow> max 0 direct
           | None \<Rightarrow>
               max 0 (spec_gaps ordered (effectivePart sp) ! i
                      + spec_interval (ordered ! Suc i) (effectivePart sp)))"
    by (simp add: spec_gaps_Suc spec_resolve_def)
  moreover have "computeGapsSeconds example_field None ''16'' = Some 1.5"
    by code_simp
  ultimately show ?thesis using fold by blast
qed

theorem computeGapsSeconds_is_fold_witness:
  "distinct (map racingNumber example_field)
   \<and> Suc (Suc 0) < length example_field
   \<and> computeGapsSeconds example_field None (racingNumber (example_field ! Suc (Suc 0))) =
       Some (spec_gaps example_field (effectivePart None) ! Suc (Suc 0))
   \<and> spec_gaps example_field (effectivePart None) ! Suc (Suc 0) = 1.5
   \<and> spec_gaps example_field (effectivePart None) ! 0 = 0"
proof -
  have d: "distinct (map racingNumber example_field)"
    by (simp add: example_field_def noSignals_def)
  have l: "Suc (Suc 0) < length example_field" "0 < length example_field"
    by (simp_all add: example_field_def)
  have r: "(case spec_direct (example_field ! Suc (Suc 0)) (effectivePart None) of
             Some direct \<Rightarrow> max 0 direct
           | None \<Rightarrow>
               max 0 (spec_gaps example_field (effectivePart None) ! Suc 0
                      + spec_interval (example_field ! Suc (Suc 0)) (effectivePart None))) = 1.5"
    by code_simp
  note inst = computeGapsSeconds_is_fold [of None example_field]
  from inst d l(1)
  have "computeGapsSeconds example_field None (racingNumber (example_field ! Suc (Suc 0))) =
       Some (spec_gaps example_field (effectivePart None) ! Suc (Suc 0))"
    by blast
  moreover from inst l(1)
  have "spec_gaps example_field (effectivePart None) ! Suc (Suc 0) =
      (case spec_direct (example_field ! Suc (Suc 0)) (effectivePart None) of
             Some direct \<Rightarrow> max 0 direct
           | None \<Rightarrow>
               max 0 (spec_gaps example_field (effectivePart None) ! Suc 0
                      + spec_interval (example_field ! Suc (Suc 0)) (effectivePart None)))"
    by blast
  moreover from inst l(2) have "spec_gaps example_field (effectivePart None) ! 0 = 0"
    by blast
  ultimately show ?thesis using d l r by simp
qed

section \<open>Properties of the scale mapper\<close>

subsection \<open>Thresholds, range and monotonicity\<close>

lemma G1_lower: "1 / 2 \<le> G1 st"
  by (simp add: G1_def)

lemma G2_lower: "G1 st + 1 / 2 \<le> G2 st"
  by (simp add: G2_def)

lemma G1_pos: "0 < G1 st"
  using G1_lower [of st] by simp

lemma G1_less_G2: "G1 st < G2 st"
  using G2_lower [of st] by simp


lemma mapGapToUnit_nonpos [simp]: "gap \<le> 0 \<Longrightarrow> mapGapToUnit st S gap = 0"
  by (simp add: mapGapToUnit_def)

lemma mapGapToUnit_first:
  "circleScale st = piecewise \<Longrightarrow> 0 < gap \<Longrightarrow> gap \<le> G1 st \<Longrightarrow>
     mapGapToUnit st S gap = (gap / G1 st) * 0.7"
  by (simp add: mapGapToUnit_def)

lemma mapGapToUnit_second:
  "circleScale st = piecewise \<Longrightarrow> G1 st < gap \<Longrightarrow> gap \<le> G2 st \<Longrightarrow>
     mapGapToUnit st S gap = 0.7 + ((gap - G1 st) / (G2 st - G1 st)) * 0.3"
  using G1_pos [of st] by (simp add: mapGapToUnit_def)

lemma mapGapToUnit_beyond:
  "circleScale st = piecewise \<Longrightarrow> G2 st < gap \<Longrightarrow> mapGapToUnit st S gap = 1"
  using G1_pos [of st] G1_less_G2 [of st] by (simp add: mapGapToUnit_def)

lemma mapGapToUnit_linear:
  "circleScale st \<noteq> piecewise \<Longrightarrow> 0 < gap \<Longrightarrow>
     mapGapToUnit st S gap = min 1 (gap / baseSec st S)"
  by (simp add: mapGapToUnit_def baseSec_def Let_def)

lemma baseSec_ge_1: "circleScale st \<noteq> piecewise \<Longrightarrow> 1 \<le> baseSec st S"
  by (simp add: baseSec_def)

lemma segment_bounds:
  fixes g1 g2 x :: real
  assumes "0 < g1" and "g1 < g2"
  shows "0 < x \<Longrightarrow> x \<le> g1 \<Longrightarrow> 0 \<le> (x / g1) * 0.7 \<and> (x / g1) * 0.7 \<le> 0.7"
    and "g1 < x \<Longrightarrow> x \<le> g2 \<Longrightarrow>
         0.7 \<le> 0.7 + ((x - g1) / (g2 - g1)) * 0.3 \<and> 0.7 + ((x - g1) / (g2 - g1)) * 0.3 \<le> 1"
  using assms by (simp_all add: field_simps)

lemma mapGapToUnit_range: "0 \<le> mapGapToUnit st S gap \<and> mapGapToUnit st S gap \<le> 1"
proof (cases "gap \<le> 0")
  case True
  then show ?thesis by simp
next
  case pos: False
  show ?thesis
  proof (cases "circleScale st = piecewise")
    case True
    note b = segment_bounds [OF G1_pos [of st] G1_less_G2 [of st], of gap]
    consider "gap \<le> G1 st" | "G1 st < gap" "gap \<le> G2 st" | "G2 st < gap" by linarith
    then show ?thesis
    proof cases
      case 1
      then show ?thesis using pos True b(1) by (simp add: mapGapToUnit_first)
    next
      case 2
      then show ?thesis using True b(2) by (simp add: mapGapToUnit_second)
    next
      case 3
      then show ?thesis using True by (simp add: mapGapToUnit_beyond)
    qed
  next
    case False
    then show ?thesis
      using pos baseSec_ge_1 [OF False, of S] by (simp add: mapGapToUnit_linear)
  qed
qed

lemma mapGapToUnit_first_le:
  assumes "circleScale st = piecewise" and "a \<le> G1 st"
  shows "mapGapToUnit st S a \<le> 7 / 10"
proof (cases "a \<le> 0")
  case True
  then show ?thesis by simp
next
  case False
  then have "0 < a" by simp
  then have "mapGapToUnit st S a = (a / G1 st) * 0.7"
    using assms by (simp add: mapGapToUnit_first)
  moreover have "(a / G1 st) * 0.7 \<le> 0.7"
    using segment_bounds(1) [OF G1_pos [of st] G1_less_G2 [of st] \<open>0 < a\<close> assms(2)] by blast
  ultimately show ?thesis by simp
qed

lemma mapGapToUnit_second_ge:
  assumes "circleScale st = piecewise" and "G1 st < b"
  shows "7 / 10 \<le> mapGapToUnit st S b"
proof (cases "b \<le> G2 st")
  case True
  then have "mapGapToUnit st S b = 0.7 + ((b - G1 st) / (G2 st - G1 st)) * 0.3"
    using assms by (simp add: mapGapToUnit_second)
  moreover have "0.7 \<le> 0.7 + ((b - G1 st) / (G2 st - G1 st)) * 0.3"
    using segment_bounds(2) [OF G1_pos [of st] G1_less_G2 [of st] assms(2) True] by blast
  ultimately show ?thesis by simp
next
  case False
  then show ?thesis using assms by (simp add: mapGapToUnit_beyond)
qed

lemma mapGapToUnit_mono:
  assumes "a \<le> b"
  shows "mapGapToUnit st S a \<le> mapGapToUnit st S b"
proof (cases "a \<le> 0")
  case True
  then show ?thesis using mapGapToUnit_range [of st S b] by simp
next
  case pos: False
  then have posb: "0 < b" "0 < a" using assms by simp_all
  show ?thesis
  proof (cases "circleScale st = piecewise")
    case False
    have "a / baseSec st S \<le> b / baseSec st S"
      using assms baseSec_ge_1 [OF False, of S] by (simp add: divide_right_mono)
    then show ?thesis
      using False posb by (simp add: mapGapToUnit_linear min_le_iff_disj)
  next
    case True
    have g: "0 < G1 st" "G1 st < G2 st" by (rule G1_pos, rule G1_less_G2)
    consider "b \<le> G1 st" | "a \<le> G1 st" "G1 st < b" "b \<le> G2 st"
      | "G1 st < a" "b \<le> G2 st" | "G2 st < b" by linarith
    then show ?thesis
    proof cases
      case 1
      define qa qb where "qa = a / G1 st" and "qb = b / G1 st"
      have "a \<le> G1 st" using 1 assms by simp
      then have "mapGapToUnit st S a = qa * 0.7" "mapGapToUnit st S b = qb * 0.7"
        using 1 True posb by (simp_all add: mapGapToUnit_first qa_def qb_def)
      moreover have "qa \<le> qb"
        unfolding qa_def qb_def using assms g(1) by (simp add: divide_right_mono)
      ultimately show ?thesis by simp
    next
      case 2
      then show ?thesis
        using mapGapToUnit_first_le [OF True, of a S] mapGapToUnit_second_ge [OF True, of b S]
        by linarith
    next
      case 3
      define qa qb where "qa = (a - G1 st) / (G2 st - G1 st)"
        and "qb = (b - G1 st) / (G2 st - G1 st)"
      have "a \<le> G2 st" "G1 st < b" using 3 assms by simp_all
      then have "mapGapToUnit st S a = 0.7 + qa * 0.3" "mapGapToUnit st S b = 0.7 + qb * 0.3"
        using 3 True by (simp_all add: mapGapToUnit_second qa_def qb_def)
      moreover have "qa \<le> qb"
        unfolding qa_def qb_def using assms g(2) by (simp add: divide_right_mono)
      ultimately show ?thesis by simp
    next
      case 4
      then show ?thesis
        using True mapGapToUnit_range [of st S a] by (simp add: mapGapToUnit_beyond)
    qed
  qed
qed

subsection \<open>Stretch and dots\<close>

lemma mapGapToUnit_is_mono: "mono (mapGapToUnit st S)"
  by (rule monoI) (rule mapGapToUnit_mono)

lemma maxRawUnit_of_maxGap:
  "maxRawUnit st vis gaps =
     mapGapToUnit st (spreadSeconds vis gaps) (Max (set (map (gapOf gaps) vis @ [0])))"
proof (cases "vis = []")
  case True
  then show ?thesis by (simp add: maxRawUnit_def)
next
  case False
  let ?f = "mapGapToUnit st (spreadSeconds vis gaps)"
  let ?G = "gapOf gaps ` set vis"
  have raw: "rawUnit st vis gaps ` set vis = ?f ` ?G"
    by (simp add: rawUnit_def image_image)
  have ne: "?f ` ?G \<noteq> {}" and fin: "finite (?f ` ?G)" using False by simp_all
  have "Max (?f ` ?G) \<in> ?f ` ?G" using fin ne by (rule Max_in)
  then have nonneg: "0 \<le> Max (?f ` ?G)" using mapGapToUnit_range by auto
  have "?f (Max (insert 0 ?G)) = Max (?f ` insert 0 ?G)"
    by (rule mono_Max_commute [OF mapGapToUnit_is_mono]) simp_all
  also have "\<dots> = Max (insert 0 (?f ` ?G))" by simp
  also have "\<dots> = max 0 (Max (?f ` ?G))" using fin ne by (rule Max_insert)
  also have "\<dots> = Max (?f ` ?G)" using nonneg by simp
  finally show ?thesis using False by (simp add: maxRawUnit_def raw)
qed

lemma piecewiseStretch_maxRawUnit:
  "circleScale st = piecewise \<Longrightarrow>
     piecewiseStretch st vis gaps =
       (if maxRawUnit st vis gaps \<le> 0 \<or> maxRawUnit st vis gaps \<ge> 1 then 1
        else 1 / maxRawUnit st vis gaps)"
  unfolding maxRawUnit_of_maxGap by (simp add: piecewiseStretch_def Let_def)

lemma maxRawUnit_range: "0 \<le> maxRawUnit st vis gaps \<and> maxRawUnit st vis gaps \<le> 1"
  unfolding maxRawUnit_of_maxGap by (rule mapGapToUnit_range)

lemma maxRawUnit_upper:
  "d \<in> set vis \<Longrightarrow> rawUnit st vis gaps d \<le> maxRawUnit st vis gaps"
  by (auto simp: maxRawUnit_def)

lemma maxRawUnit_attained:
  "vis \<noteq> [] \<Longrightarrow> \<exists>d \<in> set vis. rawUnit st vis gaps d = maxRawUnit st vis gaps"
proof -
  assume "vis \<noteq> []"
  then have "Max (rawUnit st vis gaps ` set vis) \<in> rawUnit st vis gaps ` set vis"
    by (intro Max_in) simp_all
  then obtain d where "d \<in> set vis" "rawUnit st vis gaps d = Max (rawUnit st vis gaps ` set vis)"
    by (auto simp: image_iff)
  then show ?thesis using \<open>vis \<noteq> []\<close> by (auto simp: maxRawUnit_def)
qed

lemma piecewiseStretch_ge_1: "1 \<le> piecewiseStretch st vis gaps"
proof (cases "circleScale st = piecewise")
  case False
  then show ?thesis by (simp add: piecewiseStretch_def)
next
  case True
  show ?thesis
    using maxRawUnit_range [of st vis gaps]
    by (simp add: piecewiseStretch_maxRawUnit [OF True] field_simps)
qed

lemma dots_length [simp]: "length (dots st vis gaps) = length vis"
  by (simp add: dots_def)

lemma dots_nth:
  assumes "i < length vis"
  shows "dot_racingNumber (dots st vis gaps ! i) = racingNumber (vis ! i)"
    and "dot_gap (dots st vis gaps ! i) = gapOf gaps (vis ! i)"
    and "dot_y (dots st vis gaps ! i) = pushTick_unit st vis gaps (gapOf gaps (vis ! i))"
    and "dot_y (dots st vis gaps ! i) =
           min 1 (rawUnit st vis gaps (vis ! i)
                  * (if circleScale st = piecewise then piecewiseStretch st vis gaps else 1))"
    and "dot_overMax (dots st vis gaps ! i) =
           (gapOf gaps (vis ! i) > baseSec st (spreadSeconds vis gaps))"
  using assms by (simp_all add: dots_def pushTick_unit_def rawUnit_def Let_def)

lemma pushTick_unit_range:
  "0 \<le> pushTick_unit st vis gaps sec \<and> pushTick_unit st vis gaps sec \<le> 1"
  using mapGapToUnit_range [of st "spreadSeconds vis gaps" sec]
    piecewiseStretch_ge_1 [of st vis gaps]
  by (simp add: pushTick_unit_def Let_def)

lemma pushTick_unit_mono:
  assumes "a \<le> b"
  shows "pushTick_unit st vis gaps a \<le> pushTick_unit st vis gaps b"
proof -
  let ?k = "if circleScale st = piecewise then piecewiseStretch st vis gaps else 1"
  have "0 \<le> ?k" using piecewiseStretch_ge_1 [of st vis gaps] by simp
  then have "mapGapToUnit st (spreadSeconds vis gaps) a * ?k
      \<le> mapGapToUnit st (spreadSeconds vis gaps) b * ?k"
    using mapGapToUnit_mono [OF assms] by (rule mult_right_mono [rotated])
  then show ?thesis
    unfolding pushTick_unit_def Let_def by (simp add: min_le_iff_disj)
qed

subsection \<open>Denominators, visible set and the circle's mapping\<close>

lemma orDefault_max: "max 1 (orDefault S 1) = max 1 S"
  by (simp add: orDefault_def)

lemma spreadSeconds_maxVisibleGap: "spreadSeconds vis gaps = maxVisibleGap vis gaps"
  by (simp add: spreadSeconds_def maxVisibleGap_def)

lemma spreadSeconds_circle_maxVisibleGap:
  "spreadSeconds_circle vis gaps lap =
     (if 0 < maxVisibleGap vis gaps then maxVisibleGap vis gaps else orDefault lap 90)"
  by (simp add: spreadSeconds_circle_def maxVisibleGap_def Let_def)


lemma visible_all: "topN \<le> 0 \<Longrightarrow> visible topN ordered = ordered"
  by (simp add: visible_def)

lemma visible_take:
  "0 < topN \<Longrightarrow> visible topN ordered = take (min (nat topN) (length ordered)) ordered"
  by (auto simp: visible_def Let_def min_def)

lemma min_degrees: "min 360 (q * 360) / 360 = min 1 (q::real)"
  by (simp add: min_def)

lemma mapGapToAngle_linear:
  "circleScale st \<noteq> piecewise \<Longrightarrow> 0 < gap \<Longrightarrow>
     mapGapToAngle st Sc gap / 360 =
       min 1 (gap / (if circleScale st = fixed then max 1 (orDefault (circleFixedSeconds st) 30)
                     else Sc))"
  unfolding mapGapToAngle_def Let_def by (simp only: min_degrees if_False not_le [symmetric])

lemma mapGapToAngle_fixed:
  "circleScale st = fixed \<Longrightarrow> mapGapToUnit st Sv gap = mapGapToAngle st Sc gap / 360"
proof (cases "gap \<le> 0")
  case True
  then show ?thesis by (simp add: mapGapToAngle_def)
next
  case False
  assume "circleScale st = fixed"
  then show ?thesis
    using False by (simp add: mapGapToAngle_linear mapGapToUnit_linear baseSec_def)
qed

lemma mapGapToAngle_spread:
  assumes "circleScale st = spread" and "1 \<le> maxVisibleGap vis gaps"
  shows "mapGapToUnit st (spreadSeconds vis gaps) gap =
     mapGapToAngle st (spreadSeconds_circle vis gaps lap) gap / 360"
proof (cases "gap \<le> 0")
  case True
  then show ?thesis by (simp add: mapGapToAngle_def)
next
  case False
  then show ?thesis
    using assms
    by (simp add: mapGapToAngle_linear mapGapToUnit_linear baseSec_def orDefault_def
        spreadSeconds_maxVisibleGap spreadSeconds_circle_maxVisibleGap)
qed

lemma mapGapToAngle_piecewise:
  assumes "circleScale st = piecewise"
  shows "mapGapToUnit st Sv gap = mapGapToAngle st Sc gap / 360 \<longleftrightarrow> gap \<le> 0 \<or> G2 st \<le> gap"
proof -
  have g: "0 < G1 st" "G1 st < G2 st" by (rule G1_pos, rule G1_less_G2)
  consider "gap \<le> 0" | "0 < gap" "gap \<le> G1 st" | "G1 st < gap" "gap < G2 st"
    | "gap = G2 st" | "G2 st < gap" by linarith
  then show ?thesis
  proof cases
    case 1
    then show ?thesis by (simp add: mapGapToAngle_def)
  next
    case 2
    define q where "q = gap / G1 st"
    have "mapGapToUnit st Sv gap = q * 0.7"
      using 2 assms unfolding q_def by (simp add: mapGapToUnit_def)
    moreover have "mapGapToAngle st Sc gap = q * 240"
      using 2 assms unfolding q_def by (simp add: mapGapToAngle_def)
    moreover have "0 < q" using 2 g by (simp add: q_def)
    ultimately show ?thesis using 2 g by simp
  next
    case 3
    define q where "q = (gap - G1 st) / (G2 st - G1 st)"
    have "mapGapToUnit st Sv gap = 0.7 + q * 0.3"
      using 3 g assms unfolding q_def by (simp add: mapGapToUnit_def)
    moreover have "mapGapToAngle st Sc gap = 240 + q * 120"
      using 3 g assms unfolding q_def by (simp add: mapGapToAngle_def)
    moreover have "q < 1" using 3 g by (simp add: q_def)
    ultimately show ?thesis using 3 g by simp
  next
    case 4
    then show ?thesis
      using g assms by (simp add: mapGapToUnit_def mapGapToAngle_def)
  next
    case 5
    then show ?thesis
      using g assms by (simp add: mapGapToUnit_def mapGapToAngle_def)
  qed
qed

subsection \<open>Rounding to double precision\<close>

lemma pow2_pos: "0 < pow2 e"
  by (simp add: pow2_def)

lemma pow2_step: "pow2 (e - 52) = pow2 e / 2 ^ 52"
proof -
  have "pow2 e = 2 powi e" for e
    by (simp add: pow2_def power_int_def inverse_eq_divide power_one_over)
  then show ?thesis by (simp add: power_int_diff)
qed

lemma real_pow2_le: "a \<le> 2 ^ k \<Longrightarrow> real a \<le> 2 ^ k"
proof -
  assume "a \<le> 2 ^ k"
  then have "real a \<le> real (2 ^ k)" by (rule of_nat_mono)
  then show ?thesis by simp
qed

lemma real_pow2_ge: "2 ^ k \<le> a \<Longrightarrow> 2 ^ k \<le> real a"
proof -
  assume "2 ^ k \<le> a"
  then have "real (2 ^ k) \<le> real a" by (rule of_nat_mono)
  then show ?thesis by simp
qed

lemma binExponent_lower:
  assumes "0 < x"
  shows "pow2 (binExponent x) \<le> x"
proof (cases "1 \<le> x")
  case True
  define n where "n = nat \<lfloor>x\<rfloor>"
  have n: "0 < n" "real n \<le> x" using True by (simp_all add: n_def)
  have "2 ^ (floorlog 2 n - 1) \<le> n" using floorlog_bounds [of n 2] n(1) by simp
  then have "(2::real) ^ (floorlog 2 n - 1) \<le> real n"
    by (rule real_pow2_ge)
  with n(2) have "(2::real) ^ (floorlog 2 n - 1) \<le> x" by linarith
  moreover have "0 < floorlog 2 n" using n(1) by (simp add: floorlog_def)
  ultimately show ?thesis
    using True by (simp add: binExponent_def pow2_def n_def [symmetric] nat_diff_distrib)
next
  case False
  define n where "n = nat \<lceil>1 / x\<rceil>"
  have y: "1 < 1 / x" using assms False by simp
  then have "1 < \<lceil>1 / x\<rceil>" by linarith
  then have n: "2 \<le> n" "1 / x \<le> real n" by (simp_all add: n_def) linarith
  then have "n - 1 < 2 ^ floorlog 2 (n - 1)" using floorlog_bounds [of "n - 1" 2] by simp
  then have "n \<le> 2 ^ floorlog 2 (n - 1)" by simp
  then have "real n \<le> 2 ^ floorlog 2 (n - 1)"
    by (rule real_pow2_le)
  with n(2) have "1 / x \<le> 2 ^ floorlog 2 (n - 1)" by linarith
  then have "1 / 2 ^ floorlog 2 (n - 1) \<le> x"
    using assms by (simp add: field_simps)
  moreover have "0 < floorlog 2 (n - 1)" using n(1) by (simp add: floorlog_def)
  ultimately show ?thesis
    using False by (simp add: binExponent_def pow2_def n_def [symmetric])
qed

lemma binExponent_upper:
  assumes "0 < x"
  shows "x < pow2 (binExponent x + 1)"
proof (cases "1 \<le> x")
  case True
  define n where "n = nat \<lfloor>x\<rfloor>"
  have "0 < \<lfloor>x\<rfloor>" using True by linarith
  then have n: "0 < n" and rn: "real n = of_int \<lfloor>x\<rfloor>" by (simp_all add: n_def)
  have "x < of_int \<lfloor>x\<rfloor> + 1" by linarith
  then have n2: "x < real n + 1" unfolding rn .
  have "n < 2 ^ floorlog 2 n" using floorlog_bounds [of n 2] n by simp
  then have "n + 1 \<le> 2 ^ floorlog 2 n" by simp
  then have "real (n + 1) \<le> 2 ^ floorlog 2 n" by (rule real_pow2_le)
  with n2 have "x < 2 ^ floorlog 2 n" by simp
  then show ?thesis
    using True by (simp add: binExponent_def pow2_def n_def [symmetric])
next
  case False
  define n where "n = nat \<lceil>1 / x\<rceil>"
  have y: "1 < 1 / x" using assms False by simp
  then have c: "1 < \<lceil>1 / x\<rceil>" by linarith
  define z where "z = \<lceil>1 / x\<rceil>"
  have z: "2 \<le> z" using c by (simp add: z_def)
  then have n: "2 \<le> n" unfolding n_def z_def [symmetric] by arith
  have rn: "real n = of_int \<lceil>1 / x\<rceil>"
    unfolding n_def z_def [symmetric] using z by simp
  have "of_int \<lceil>1 / x\<rceil> - 1 < 1 / x" by linarith
  then have n2: "real n - 1 < 1 / x" unfolding rn .
  define k where "k = floorlog 2 (n - 1)"
  have k: "0 < k" using n by (simp add: k_def floorlog_def)
  have "2 ^ (k - 1) \<le> n - 1" using floorlog_bounds [of "n - 1" 2] n by (simp add: k_def)
  then have "2 ^ (k - 1) \<le> real (n - 1)" by (rule real_pow2_ge)
  moreover have "real (n - 1) = real n - 1" using n by (simp add: of_nat_diff)
  ultimately have "(2::real) ^ (k - 1) < 1 / x" using n2 by linarith
  then have "x * 2 ^ (k - 1) < 1" using assms by (simp add: field_simps)
  then have "x < 1 / 2 ^ (k - 1)" by (simp add: field_simps)
  moreover have "pow2 (- int k + 1) = 1 / 2 ^ (k - 1)"
    using k by (cases k) (simp_all add: pow2_def)
  moreover have "binExponent x = - int k"
    using False by (simp add: binExponent_def n_def k_def)
  ultimately show ?thesis by simp
qed

text \<open>Sample values, as double arithmetic gives them.\<close>

lemma fl_values:
  "fl (7 / 10) = 6305039478318694 / 2 ^ 53"
  "fl (fl (1 / 10) + fl (2 / 10)) = 5404319552844596 / 2 ^ 54"
  "fl (fl (7 / 10) + fl (3 / 10)) = 1"
  "fl 15 = 15"
  by code_simp+

lemma roundEven_near: "\<bar>of_int (roundEven t) - t\<bar> \<le> 1 / 2"
  unfolding roundEven_def Let_def by (auto simp: abs_le_iff)

lemma roundEven_between:
  assumes "of_int n \<le> t" and "t \<le> of_int n + 1"
  shows "roundEven t = n \<or> roundEven t = n + 1"
proof -
  have "\<lfloor>t\<rfloor> = n \<or> (\<lfloor>t\<rfloor> = n + 1 \<and> t = of_int n + 1)"
    using assms by linarith
  then show ?thesis
    unfolding roundEven_def Let_def by auto
qed

lemma roundEven_low:
  assumes "of_int n \<le> t" and "t \<le> of_int n + 1 / 2" and "even n"
  shows "roundEven t = n"
proof -
  have "\<lfloor>t\<rfloor> = n" using assms by linarith
  then show ?thesis
    using assms unfolding roundEven_def Let_def by auto
qed

lemma fl_relative_error:
  assumes "0 < x"
  shows "\<bar>fl x - x\<bar> \<le> x / 2 ^ 53"
proof -
  define e where "e = binExponent x"
  define u where "u = pow2 (e - 52)"
  have u: "0 < u" "u = pow2 e / 2 ^ 52" by (simp_all add: u_def pow2_pos pow2_step)
  have "fl x = of_int (roundEven (x / u)) * u"
    using assms by (simp add: fl_def Let_def e_def u_def)
  then have "fl x - x = (of_int (roundEven (x / u)) - x / u) * u"
    using u(1) by (simp add: field_simps)
  then have "\<bar>fl x - x\<bar> = \<bar>of_int (roundEven (x / u)) - x / u\<bar> * u"
    using u(1) by (simp add: abs_mult)
  also have "\<dots> \<le> (1 / 2) * u"
    using roundEven_near [of "x / u"] u(1) by (intro mult_right_mono) simp_all
  also have "\<dots> = pow2 e / 2 ^ 53" by (simp add: u(2))
  also have "\<dots> \<le> x / 2 ^ 53"
    using binExponent_lower [OF assms] by (simp add: e_def divide_right_mono)
  finally show ?thesis .
qed

lemma fl_near_one:
  assumes "1 - 1 / 2 ^ 53 \<le> y" and "y \<le> 1 + 1 / 2 ^ 53"
  shows "fl y = 1 \<or> fl y = 1 - 1 / 2 ^ 53"
proof (cases "1 \<le> y")
  case True
  then have "\<lfloor>y\<rfloor> = 1" using assms(2) by (simp add: floor_eq_iff) 
  then have e: "binExponent y = 0"
    using True by (simp add: binExponent_def compute_floorlog)
  have "roundEven (y * 2 ^ 52) = 2 ^ 52"
  proof (rule roundEven_low)
    show "of_int (2 ^ 52) \<le> y * 2 ^ 52" using True by simp
    show "y * 2 ^ 52 \<le> of_int (2 ^ 52) + 1 / 2" using assms(2) by (simp add: field_simps)
    show "even (2 ^ 52 :: int)" by simp
  qed
  then show ?thesis
    using True e by (simp add: fl_def pow2_def Let_def)
next
  case False
  have half: "1 / 2 \<le> y" using assms(1) by (simp add: field_simps) 
  then have "1 < 1 / y" "1 / y \<le> 2" using False by (simp_all add: field_simps)
  then have "\<lceil>1 / y\<rceil> = 2" by (simp add: ceiling_eq_iff)
  then have e: "binExponent y = - 1"
    using False by (simp add: binExponent_def compute_floorlog)
  have "roundEven (y * 2 ^ 53) = 2 ^ 53 - 1 \<or> roundEven (y * 2 ^ 53) = (2 ^ 53 - 1) + 1"
  proof (rule roundEven_between)
    show "of_int (2 ^ 53 - 1) \<le> y * 2 ^ 53" using assms(1) by (simp add: field_simps)
    show "y * 2 ^ 53 \<le> of_int (2 ^ 53 - 1) + 1" using False by simp
  qed
  moreover have "fl y = of_int (roundEven (y * 2 ^ 53)) / 2 ^ 53"
    using False half e by (simp add: fl_def pow2_def Let_def)
  ultimately show ?thesis by (auto simp: field_simps)
qed

lemma reciprocal_product:
  assumes "0 < m"
  shows "fl (m * fl (1 / m)) = 1 \<or> fl (m * fl (1 / m)) = 1 - 1 / 2 ^ 53"
proof -
  have "\<bar>fl (1 / m) - 1 / m\<bar> \<le> (1 / m) / 2 ^ 53"
    using assms by (intro fl_relative_error) simp
  then have "\<bar>fl (1 / m) - 1 / m\<bar> * m \<le> ((1 / m) / 2 ^ 53) * m"
    using assms by (intro mult_right_mono) simp_all
  moreover have "\<bar>fl (1 / m) - 1 / m\<bar> * m = \<bar>m * fl (1 / m) - 1\<bar>"
    using assms by (simp add: abs_mult [symmetric] field_simps)
  moreover have "((1 / m) / 2 ^ 53) * m = 1 / 2 ^ 53" using assms by simp
  ultimately have "\<bar>m * fl (1 / m) - 1\<bar> \<le> 1 / 2 ^ 53" by simp
  then have "1 - 1 / 2 ^ 53 \<le> m * fl (1 / m)" "m * fl (1 / m) \<le> 1 + 1 / 2 ^ 53"
    unfolding abs_le_iff by linarith+
  then show ?thesis by (rule fl_near_one)
qed

lemma piecewiseStretch_double_farthest:
  "circleScale st = piecewise \<Longrightarrow>
     piecewiseStretch_double st vis gaps =
       (if mapGapToUnit_double st (spreadSeconds vis gaps) (farthestGap vis gaps) \<le> 0
           \<or> 1 \<le> mapGapToUnit_double st (spreadSeconds vis gaps) (farthestGap vis gaps)
        then 1
        else fl (1 / mapGapToUnit_double st (spreadSeconds vis gaps) (farthestGap vis gaps)))"
  by (simp add: piecewiseStretch_double_def farthestGap_def Let_def)

lemma dot_y_double_farthest:
  assumes "circleScale st = piecewise" and "gapOf gaps d = farthestGap vis gaps"
  shows "dot_y_double st vis gaps d =
     min 1 (fl (mapGapToUnit_double st (spreadSeconds vis gaps) (farthestGap vis gaps)
                * piecewiseStretch_double st vis gaps))"
  using assms by (simp add: dot_y_double_def Let_def)

lemma fl_two: "fl 2 = 2" "fl 1 = 1"
  by code_simp+

section \<open>The claims about the scale mapper\<close>

text \<open>
  C3: in piecewise mode the mapper returns (gap / G1) * 0.7 for 0 < gap \<le> G1,
  0.7 + ((gap - G1) / (G2 - G1)) * 0.3 for G1 < gap \<le> G2 and exactly 1 for gap > G2, and
  a dot is flagged over the maximum exactly when its gap exceeds G2. With G1 = 3 and
  G2 = 15 the gaps 3, 15 and 20 map to 0.7, 1 and 1, and a driver 20 seconds behind is
  flagged.
\<close>

theorem mapGapToUnit_piecewise:
  assumes "circleScale st = piecewise"
  shows "(0 < gap \<and> gap \<le> G1 st \<longrightarrow> mapGapToUnit st S gap = (gap / G1 st) * 0.7)
   \<and> (G1 st < gap \<and> gap \<le> G2 st \<longrightarrow>
        mapGapToUnit st S gap = 0.7 + ((gap - G1 st) / (G2 st - G1 st)) * 0.3)
   \<and> (G2 st < gap \<longrightarrow> mapGapToUnit st S gap = 1)
   \<and> (\<forall>i < length vis.
        dot_gap (dots st vis gaps ! i) = gapOf gaps (vis ! i)
        \<and> (dot_overMax (dots st vis gaps ! i) \<longleftrightarrow> G2 st < dot_gap (dots st vis gaps ! i)))
   \<and> (G1 st = 3 \<and> G2 st = 15 \<longrightarrow>
        mapGapToUnit st S 3 = 0.7 \<and> mapGapToUnit st S 15 = 1 \<and> mapGapToUnit st S 20 = 1)
   \<and> verticalDots defaultSettings example_far_field None ! 1 =
        \<lparr>dot_racingNumber = ''44'', dot_y = 1, dot_gap = 20, dot_overMax = True\<rparr>"
proof -
  have "\<forall>i < length vis.
        dot_gap (dots st vis gaps ! i) = gapOf gaps (vis ! i)
        \<and> (dot_overMax (dots st vis gaps ! i) \<longleftrightarrow> G2 st < dot_gap (dots st vis gaps ! i))"
    using assms by (simp add: dots_nth baseSec_def)
  moreover have "G1 st = 3 \<and> G2 st = 15 \<longrightarrow>
        mapGapToUnit st S 3 = 0.7 \<and> mapGapToUnit st S 15 = 1 \<and> mapGapToUnit st S 20 = 1"
    using assms by (simp add: mapGapToUnit_def)
  moreover have "verticalDots defaultSettings example_far_field None ! 1 =
        \<lparr>dot_racingNumber = ''44'', dot_y = 1, dot_gap = 20, dot_overMax = True\<rparr>"
    by code_simp
  ultimately show ?thesis
    using assms mapGapToUnit_first [of st gap S] mapGapToUnit_second [of st gap S]
      mapGapToUnit_beyond [of st gap S]
    by blast
qed

theorem mapGapToUnit_piecewise_witness:
  "circleScale defaultSettings = piecewise
   \<and> G1 defaultSettings = 3 \<and> G2 defaultSettings = 15
   \<and> mapGapToUnit defaultSettings 0 3 = 0.7
   \<and> mapGapToUnit defaultSettings 0 15 = 1
   \<and> mapGapToUnit defaultSettings 0 20 = 1
   \<and> G1 defaultSettings < 5 \<and> 5 \<le> G2 defaultSettings
   \<and> mapGapToUnit defaultSettings 0 5 =
        0.7 + ((5 - G1 defaultSettings) / (G2 defaultSettings - G1 defaultSettings)) * 0.3
   \<and> 1 < length example_far_field
   \<and> G2 defaultSettings
        < dot_gap (dots defaultSettings example_far_field
                     (computeGapsSeconds example_far_field None) ! 1)
   \<and> dot_overMax (dots defaultSettings example_far_field
                     (computeGapsSeconds example_far_field None) ! 1)"
proof -
  have l: "1 < length example_far_field" by (simp add: example_far_field_def)
  have o: "G2 defaultSettings
        < dot_gap (dots defaultSettings example_far_field
                     (computeGapsSeconds example_far_field None) ! 1)"
    by code_simp
  have p: "circleScale defaultSettings = piecewise" by (simp add: defaultSettings_def)
  have g: "G1 defaultSettings = 3" "G2 defaultSettings = 15"
    by (simp_all add: G1_def G2_def defaultSettings_def orDefault_def)
  have r: "G1 defaultSettings < 5" "5 \<le> G2 defaultSettings" by (simp_all add: g)
  from mapGapToUnit_piecewise [OF p, of _ 0] g
  have "mapGapToUnit defaultSettings 0 3 = 0.7 \<and> mapGapToUnit defaultSettings 0 15 = 1
      \<and> mapGapToUnit defaultSettings 0 20 = 1"
    by blast
  moreover from mapGapToUnit_piecewise [OF p, of 5 0] r
  have "mapGapToUnit defaultSettings 0 5 =
        0.7 + ((5 - G1 defaultSettings) / (G2 defaultSettings - G1 defaultSettings)) * 0.3"
    by blast
  moreover from mapGapToUnit_piecewise [OF p, of _ _ example_far_field
      "computeGapsSeconds example_far_field None"] l o
  have "dot_overMax (dots defaultSettings example_far_field
                     (computeGapsSeconds example_far_field None) ! 1)"
    by blast
  ultimately show ?thesis using p g r l o by blast
qed

text \<open>
  C4, as stated, fails in the arithmetic of the program: the stretch is the rounded
  reciprocal of the farthest driver's raw unit, and the rounded product of the two can
  fall one step short of 1. With the store's thresholds a driver 7 seconds behind, alone
  behind the leader, is drawn at \<open>1 - 2^-53\<close>; so is a driver whose gap is the double
  that the parser returns for \<open>+1.45\<close>.
\<close>

theorem piecewiseStretch_double_counterexample:
  "circleScale defaultSettings = piecewise
   \<and> gapOf (computeGapsSeconds example_seven_field None) (example_seven_field ! 1) =
       farthestGap (visible (circleTopN defaultSettings) example_seven_field)
         (computeGapsSeconds example_seven_field None)
   \<and> dot_y_double defaultSettings (visible (circleTopN defaultSettings) example_seven_field)
        (computeGapsSeconds example_seven_field None) (example_seven_field ! 1)
       = 1 - 1 / 2 ^ 53
   \<and> dot_y_double defaultSettings example_seven_field
        [''1'' \<mapsto> 0, ''44'' \<mapsto> fl (1 + fl (450 / 1000))] (example_seven_field ! 1)
       = 1 - 1 / 2 ^ 53"
  by code_simp

text \<open>
  C4, amended: in piecewise mode, with m the maximum raw unit over the visible drivers,
  which is the raw unit of the largest visible gap: if 0 < m < 1 the stretch factor is
  1 / m and every dot is its raw unit times the factor clamped to 1; if m = 0 or m \<ge> 1
  the factor is 1 and every dot is its raw unit; the maximum bounds every visible raw
  unit and a visible driver attains it. In the double arithmetic of the program the
  factor is the rounded reciprocal, and the final unit of the farthest-back visible
  driver is 1 or the largest double below 1, \<open>1 - 2^-53\<close>. For a raw unit of 0.5 the
  factor is 2 and that driver ends at exactly 1, also in double arithmetic.
\<close>

theorem piecewiseStretch_fills_range:
  assumes "circleScale st = piecewise"
  shows "(0 < maxRawUnit st vis gaps \<and> maxRawUnit st vis gaps < 1 \<longrightarrow>
        piecewiseStretch st vis gaps = 1 / maxRawUnit st vis gaps
        \<and> (\<forall>i < length vis.
             dot_y (dots st vis gaps ! i) =
               min 1 (rawUnit st vis gaps (vis ! i) * (1 / maxRawUnit st vis gaps))))
   \<and> (maxRawUnit st vis gaps = 0 \<or> 1 \<le> maxRawUnit st vis gaps \<longrightarrow>
        piecewiseStretch st vis gaps = 1
        \<and> (\<forall>i < length vis. dot_y (dots st vis gaps ! i) = rawUnit st vis gaps (vis ! i)))
   \<and> (maxRawUnit st vis gaps = 1 / 2 \<longrightarrow>
        piecewiseStretch st vis gaps = 2
        \<and> (\<forall>i < length vis.
             rawUnit st vis gaps (vis ! i) = 1 / 2 \<longrightarrow> dot_y (dots st vis gaps ! i) = 1))
   \<and> (\<forall>i < length vis. rawUnit st vis gaps (vis ! i) \<le> maxRawUnit st vis gaps)
   \<and> (vis \<noteq> [] \<longrightarrow>
        (\<exists>i < length vis. rawUnit st vis gaps (vis ! i) = maxRawUnit st vis gaps))
   \<and> maxRawUnit st vis gaps = mapGapToUnit st (spreadSeconds vis gaps) (farthestGap vis gaps)
   \<and> (0 < mapGapToUnit_double st (spreadSeconds vis gaps) (farthestGap vis gaps)
        \<and> mapGapToUnit_double st (spreadSeconds vis gaps) (farthestGap vis gaps) < 1 \<longrightarrow>
        piecewiseStretch_double st vis gaps =
          fl (1 / mapGapToUnit_double st (spreadSeconds vis gaps) (farthestGap vis gaps))
        \<and> (\<forall>d \<in> set vis. gapOf gaps d = farthestGap vis gaps \<longrightarrow>
             dot_y_double st vis gaps d = 1 \<or> dot_y_double st vis gaps d = 1 - 1 / 2 ^ 53))
   \<and> (mapGapToUnit_double st (spreadSeconds vis gaps) (farthestGap vis gaps) = 1 / 2 \<longrightarrow>
        piecewiseStretch_double st vis gaps = 2
        \<and> (\<forall>d \<in> set vis. gapOf gaps d = farthestGap vis gaps \<longrightarrow>
             dot_y_double st vis gaps d = 1))"
proof -
  let ?m = "maxRawUnit st vis gaps"
  let ?k = "piecewiseStretch st vis gaps"
  let ?b = "mapGapToUnit_double st (spreadSeconds vis gaps) (farthestGap vis gaps)"
  let ?kd = "piecewiseStretch_double st vis gaps"
  have k: "?k = (if ?m \<le> 0 \<or> ?m \<ge> 1 then 1 else 1 / ?m)"
    using assms by (rule piecewiseStretch_maxRawUnit)
  have y: "\<And>i. i < length vis \<Longrightarrow>
      dot_y (dots st vis gaps ! i) = min 1 (rawUnit st vis gaps (vis ! i) * ?k)"
    using assms by (simp add: dots_nth(4))
  have raw: "\<And>i. 0 \<le> rawUnit st vis gaps (vis ! i) \<and> rawUnit st vis gaps (vis ! i) \<le> 1"
    unfolding rawUnit_def by (rule mapGapToUnit_range)
  have upper: "\<forall>i < length vis. rawUnit st vis gaps (vis ! i) \<le> ?m"
    by (simp add: maxRawUnit_upper)
  have attained: "vis \<noteq> [] \<longrightarrow> (\<exists>i < length vis. rawUnit st vis gaps (vis ! i) = ?m)"
    using maxRawUnit_attained [of vis st gaps] by (fastforce simp: in_set_conv_nth)
  have far: "?m = mapGapToUnit st (spreadSeconds vis gaps) (farthestGap vis gaps)"
    unfolding farthestGap_def by (rule maxRawUnit_of_maxGap)
  have stretched: "0 < ?m \<and> ?m < 1 \<longrightarrow>
        ?k = 1 / ?m
        \<and> (\<forall>i < length vis.
             dot_y (dots st vis gaps ! i) = min 1 (rawUnit st vis gaps (vis ! i) * (1 / ?m)))"
    using k y by simp
  have unchanged: "?m = 0 \<or> 1 \<le> ?m \<longrightarrow>
        ?k = 1 \<and> (\<forall>i < length vis. dot_y (dots st vis gaps ! i) = rawUnit st vis gaps (vis ! i))"
    using k y raw by auto
  have half: "?m = 1 / 2 \<longrightarrow>
        ?k = 2
        \<and> (\<forall>i < length vis.
             rawUnit st vis gaps (vis ! i) = 1 / 2 \<longrightarrow> dot_y (dots st vis gaps ! i) = 1)"
  proof
    assume h: "?m = 1 / 2"
    have "?k = 2" unfolding k h by simp
    then show "?k = 2
        \<and> (\<forall>i < length vis.
             rawUnit st vis gaps (vis ! i) = 1 / 2 \<longrightarrow> dot_y (dots st vis gaps ! i) = 1)"
      using y by simp
  qed
  have kd: "?kd = (if ?b \<le> 0 \<or> 1 \<le> ?b then 1 else fl (1 / ?b))"
    using assms by (rule piecewiseStretch_double_farthest)
  have yd: "\<And>d. gapOf gaps d = farthestGap vis gaps \<Longrightarrow>
      dot_y_double st vis gaps d = min 1 (fl (?b * ?kd))"
    using assms by (rule dot_y_double_farthest)
  have rounded: "0 < ?b \<and> ?b < 1 \<longrightarrow>
        ?kd = fl (1 / ?b)
        \<and> (\<forall>d \<in> set vis. gapOf gaps d = farthestGap vis gaps \<longrightarrow>
             dot_y_double st vis gaps d = 1 \<or> dot_y_double st vis gaps d = 1 - 1 / 2 ^ 53)"
  proof
    assume b: "0 < ?b \<and> ?b < 1"
    then have s: "?kd = fl (1 / ?b)" using kd by simp
    have "fl (?b * fl (1 / ?b)) = 1 \<or> fl (?b * fl (1 / ?b)) = 1 - 1 / 2 ^ 53"
      using b by (intro reciprocal_product) simp
    then have "min 1 (fl (?b * ?kd)) = 1 \<or> min 1 (fl (?b * ?kd)) = 1 - 1 / 2 ^ 53"
      unfolding s by auto
    then show "?kd = fl (1 / ?b)
        \<and> (\<forall>d \<in> set vis. gapOf gaps d = farthestGap vis gaps \<longrightarrow>
             dot_y_double st vis gaps d = 1 \<or> dot_y_double st vis gaps d = 1 - 1 / 2 ^ 53)"
      using s yd by simp
  qed
  have halfd: "?b = 1 / 2 \<longrightarrow>
        ?kd = 2
        \<and> (\<forall>d \<in> set vis. gapOf gaps d = farthestGap vis gaps \<longrightarrow>
             dot_y_double st vis gaps d = 1)"
  proof
    assume h: "?b = 1 / 2"
    have s: "?kd = 2" unfolding kd h by (simp add: fl_two)
    then show "?kd = 2
        \<and> (\<forall>d \<in> set vis. gapOf gaps d = farthestGap vis gaps \<longrightarrow>
             dot_y_double st vis gaps d = 1)"
      using yd h by (simp add: fl_two)
  qed
  show ?thesis
    using stretched unchanged half upper attained far rounded halfd by blast
qed

theorem piecewiseStretch_fills_range_witness:
  "circleScale (defaultSettings\<lparr>circleG1 := 7\<rparr>) = piecewise
   \<and> maxRawUnit (defaultSettings\<lparr>circleG1 := 7\<rparr>) example_mid_field
        (computeGapsSeconds example_mid_field None) = 1 / 2
   \<and> piecewiseStretch (defaultSettings\<lparr>circleG1 := 7\<rparr>) example_mid_field
        (computeGapsSeconds example_mid_field None) = 2
   \<and> 1 < length example_mid_field
   \<and> rawUnit (defaultSettings\<lparr>circleG1 := 7\<rparr>) example_mid_field
        (computeGapsSeconds example_mid_field None) (example_mid_field ! 1) = 1 / 2
   \<and> dot_y (dots (defaultSettings\<lparr>circleG1 := 7\<rparr>) example_mid_field
        (computeGapsSeconds example_mid_field None) ! 1) = 1
   \<and> circleScale defaultSettings = piecewise
   \<and> 0 < mapGapToUnit_double defaultSettings
         (spreadSeconds example_seven_field (computeGapsSeconds example_seven_field None))
         (farthestGap example_seven_field (computeGapsSeconds example_seven_field None))
   \<and> mapGapToUnit_double defaultSettings
         (spreadSeconds example_seven_field (computeGapsSeconds example_seven_field None))
         (farthestGap example_seven_field (computeGapsSeconds example_seven_field None)) < 1
   \<and> example_seven_field ! 1 \<in> set example_seven_field
   \<and> gapOf (computeGapsSeconds example_seven_field None) (example_seven_field ! 1) =
       farthestGap example_seven_field (computeGapsSeconds example_seven_field None)
   \<and> (dot_y_double defaultSettings example_seven_field
         (computeGapsSeconds example_seven_field None) (example_seven_field ! 1) = 1
       \<or> dot_y_double defaultSettings example_seven_field
         (computeGapsSeconds example_seven_field None) (example_seven_field ! 1)
         = 1 - 1 / 2 ^ 53)"
proof -
  let ?st = "defaultSettings\<lparr>circleG1 := 7\<rparr>"
  let ?gaps = "computeGapsSeconds example_mid_field None"
  let ?g7 = "computeGapsSeconds example_seven_field None"
  have p: "circleScale ?st = piecewise" and pd: "circleScale defaultSettings = piecewise"
    by (simp_all add: defaultSettings_def)
  have m: "maxRawUnit ?st example_mid_field ?gaps = 1 / 2" by code_simp
  have l: "1 < length example_mid_field" by (simp add: example_mid_field_def)
  have r: "rawUnit ?st example_mid_field ?gaps (example_mid_field ! 1) = 1 / 2" by code_simp
  have b: "0 < mapGapToUnit_double defaultSettings (spreadSeconds example_seven_field ?g7)
         (farthestGap example_seven_field ?g7)"
    "mapGapToUnit_double defaultSettings (spreadSeconds example_seven_field ?g7)
         (farthestGap example_seven_field ?g7) < 1"
    by code_simp+
  have d: "example_seven_field ! 1 \<in> set example_seven_field"
    by (simp add: example_seven_field_def)
  have f: "gapOf ?g7 (example_seven_field ! 1) = farthestGap example_seven_field ?g7"
    by code_simp
  note inst = piecewiseStretch_fills_range [OF p, of example_mid_field ?gaps]
  note instd = piecewiseStretch_fills_range [OF pd, of example_seven_field ?g7]
  from inst m have "piecewiseStretch ?st example_mid_field ?gaps = 2" by blast
  moreover from inst m l r have "dot_y (dots ?st example_mid_field ?gaps ! 1) = 1" by blast
  moreover from instd b d f
  have "dot_y_double defaultSettings example_seven_field ?g7 (example_seven_field ! 1) = 1
       \<or> dot_y_double defaultSettings example_seven_field ?g7 (example_seven_field ! 1)
         = 1 - 1 / 2 ^ 53"
    by blast
  ultimately show ?thesis using p pd m l r b d f by blast
qed

text \<open>
  C5, as stated, fails in piecewise mode: at the first threshold the vertical axis is at
  0.7 of its length and the circle at 240 of 360 degrees, two thirds.
\<close>

theorem unit_angle_piecewise_counterexample:
  "mapGapToUnit defaultSettings 0 3 = 7 / 10
   \<and> mapGapToAngle defaultSettings 90 3 / 360 = 2 / 3"
  by (simp add: mapGapToUnit_def mapGapToAngle_def defaultSettings_def G1_def G2_def
      orDefault_def)

text \<open>
  C5, amended: the vertical unit equals the circle's angle divided by 360 in fixed mode for
  every gap and configuration, in spread mode whenever the maximum visible gap is at
  least one second, and in piecewise mode exactly for the gaps that are at most 0 or at
  least G2.
\<close>

theorem unit_versus_angle:
  "(circleScale st = fixed \<longrightarrow> mapGapToUnit st Sv gap = mapGapToAngle st Sc gap / 360)
   \<and> (circleScale st = spread \<and> 1 \<le> maxVisibleGap vis gaps \<longrightarrow>
        mapGapToUnit st (spreadSeconds vis gaps) gap =
          mapGapToAngle st (spreadSeconds_circle vis gaps lap) gap / 360)
   \<and> (circleScale st = piecewise \<longrightarrow>
        (mapGapToUnit st Sv gap = mapGapToAngle st Sc gap / 360
           \<longleftrightarrow> gap \<le> 0 \<or> G2 st \<le> gap))"
  using mapGapToAngle_fixed [of st Sv gap Sc] mapGapToAngle_spread [of st vis gaps gap lap]
    mapGapToAngle_piecewise [of st Sv gap Sc]
  by blast

theorem unit_versus_angle_witness:
  "circleScale (defaultSettings\<lparr>circleScale := fixed\<rparr>) = fixed
   \<and> mapGapToUnit (defaultSettings\<lparr>circleScale := fixed\<rparr>) 0 10 = 1 / 3
   \<and> mapGapToAngle (defaultSettings\<lparr>circleScale := fixed\<rparr>) 90 10 = 120
   \<and> circleScale defaultSettings = piecewise \<and> G2 defaultSettings \<le> 20
   \<and> mapGapToUnit defaultSettings 0 20 = mapGapToAngle defaultSettings 90 20 / 360"
proof -
  let ?f = "defaultSettings\<lparr>circleScale := fixed\<rparr>"
  have f: "circleScale ?f = fixed" and p: "circleScale defaultSettings = piecewise"
    by (simp_all add: defaultSettings_def)
  have u: "mapGapToUnit ?f 0 10 = 1 / 3"
    by (simp add: mapGapToUnit_def defaultSettings_def orDefault_def)
  have g: "G2 defaultSettings \<le> 20"
    by (simp add: G1_def G2_def defaultSettings_def orDefault_def)
  from unit_versus_angle [of ?f 0 10 90] f u
  have "mapGapToAngle ?f 90 10 = 120" by simp
  moreover from unit_versus_angle [of defaultSettings 0 20 90] p g
  have "mapGapToUnit defaultSettings 0 20 = mapGapToAngle defaultSettings 90 20 / 360"
    by simp
  ultimately show ?thesis using f p u g by blast
qed

text \<open>
  C6, as stated, fails for a configured value of 0: the code replaces it by the default of
  30 seconds before flooring, so the gap 10 maps to 1/3 and not to 1.
\<close>

theorem mapGapToUnit_fixed_zero_counterexample:
  "mapGapToUnit (defaultSettings\<lparr>circleScale := fixed, circleFixedSeconds := 0\<rparr>) 0 10 = 1 / 3
   \<and> min 1 (10 / max 1
        (circleFixedSeconds (defaultSettings\<lparr>circleScale := fixed, circleFixedSeconds := 0\<rparr>)))
       = (1::real)"
  by (simp add: mapGapToUnit_def defaultSettings_def orDefault_def)

text \<open>
  C6, amended: in fixed mode, for every gap > 0 the mapper returns
  min(1, gap / max(1, f)) where f is the configured fixedSeconds, or 30 when the
  configured value is 0; for a non-zero value this is the formula of the claim, and a
  negative value floors the denominator at 1. The gap 10 maps to 1/3 both with 30 and
  with 0 configured.
\<close>

theorem mapGapToUnit_fixed:
  assumes "circleScale st = fixed" and "0 < gap"
  shows "mapGapToUnit st S gap =
       min 1 (gap / max 1 (if circleFixedSeconds st = 0 then 30 else circleFixedSeconds st))
   \<and> (circleFixedSeconds st \<noteq> 0 \<longrightarrow>
        mapGapToUnit st S gap = min 1 (gap / max 1 (circleFixedSeconds st)))
   \<and> (circleFixedSeconds st < 0 \<longrightarrow> mapGapToUnit st S gap = min 1 gap)
   \<and> (circleFixedSeconds st = 30 \<longrightarrow> mapGapToUnit st S 10 = 1 / 3)
   \<and> (circleFixedSeconds st = 0 \<longrightarrow> mapGapToUnit st S 10 = 1 / 3)"
  using assms by (simp add: mapGapToUnit_def orDefault_def Let_def)

theorem mapGapToUnit_fixed_witness:
  "circleScale (defaultSettings\<lparr>circleScale := fixed\<rparr>) = fixed \<and> (0::real) < 10
   \<and> circleFixedSeconds (defaultSettings\<lparr>circleScale := fixed\<rparr>) = 30
   \<and> mapGapToUnit (defaultSettings\<lparr>circleScale := fixed\<rparr>) 0 10 = 1 / 3
   \<and> circleFixedSeconds (defaultSettings\<lparr>circleScale := fixed, circleFixedSeconds := - 5\<rparr>) < 0
   \<and> mapGapToUnit (defaultSettings\<lparr>circleScale := fixed, circleFixedSeconds := - 5\<rparr>) 0 10 = 1"
proof -
  let ?a = "defaultSettings\<lparr>circleScale := fixed\<rparr>"
  let ?b = "defaultSettings\<lparr>circleScale := fixed, circleFixedSeconds := - 5\<rparr>"
  have a: "circleScale ?a = fixed" "circleFixedSeconds ?a = 30"
    and b: "circleScale ?b = fixed" "circleFixedSeconds ?b < 0"
    by (simp_all add: defaultSettings_def)
  have g: "(0::real) < 10" by simp
  from mapGapToUnit_fixed [OF a(1) g, of 0] a(2)
  have "mapGapToUnit ?a 0 10 = 1 / 3" by blast
  moreover from mapGapToUnit_fixed [OF b(1) g, of 0] b(2)
  have "mapGapToUnit ?b 0 10 = 1" by simp
  ultimately show ?thesis using a b g by blast
qed

text \<open>
  C7, as stated, fails for the circle: with a maximum visible gap of half a second the
  circle divides by 0.5 and puts the gap 0.5 at the full turn, where the formula of the
  claim gives one half.
\<close>

theorem circle_spread_counterexample:
  "maxVisibleGap (visible 0 example_close_field) (computeGapsSeconds example_close_field None)
     = 1 / 2
   \<and> mapGapToAngle (defaultSettings\<lparr>circleScale := spread\<rparr>)
        (circleSpread (defaultSettings\<lparr>circleScale := spread\<rparr>) example_close_field None)
        (1 / 2) / 360 = 1
   \<and> min 1 ((1 / 2) / max 1
        (maxVisibleGap (visible 0 example_close_field)
           (computeGapsSeconds example_close_field None))) = 1 / 2"
  by code_simp

text \<open>
  C7, amended: in spread mode, for every gap > 0 the vertical mapper returns
  min(1, gap / max(1, M)) with M the maximum gap among the visible drivers, the
  denominator being 1 when no visible driver has a positive gap. The circle divides by M
  itself when M > 0 and by the leader's lap seconds (90 by default) otherwise, which is
  the same value whenever M is at least one second.
\<close>

theorem mapGapToUnit_spread:
  assumes "circleScale st = spread" and "0 < gap"
  shows "mapGapToUnit st (spreadSeconds vis gaps) gap =
       min 1 (gap / max 1 (maxVisibleGap vis gaps))
   \<and> (maxVisibleGap vis gaps \<le> 0 \<longrightarrow>
        mapGapToUnit st (spreadSeconds vis gaps) gap = min 1 (gap / 1))
   \<and> mapGapToAngle st (spreadSeconds_circle vis gaps lap) gap / 360 =
       min 1 (gap / (if 0 < maxVisibleGap vis gaps then maxVisibleGap vis gaps
                     else orDefault lap 90))
   \<and> (1 \<le> maxVisibleGap vis gaps \<longrightarrow>
        mapGapToAngle st (spreadSeconds_circle vis gaps lap) gap / 360 =
          min 1 (gap / max 1 (maxVisibleGap vis gaps)))"
proof -
  have np: "circleScale st \<noteq> piecewise" using assms(1) by simp
  have u: "mapGapToUnit st (spreadSeconds vis gaps) gap =
       min 1 (gap / max 1 (maxVisibleGap vis gaps))"
    using assms
    by (simp add: mapGapToUnit_linear baseSec_def orDefault_max spreadSeconds_maxVisibleGap)
  have c: "mapGapToAngle st (spreadSeconds_circle vis gaps lap) gap / 360 =
       min 1 (gap / (if 0 < maxVisibleGap vis gaps then maxVisibleGap vis gaps
                     else orDefault lap 90))"
    using assms
    by (simp add: mapGapToAngle_linear [OF np] spreadSeconds_circle_maxVisibleGap)
  have "maxVisibleGap vis gaps \<le> 0 \<longrightarrow>
        mapGapToUnit st (spreadSeconds vis gaps) gap = min 1 (gap / 1)"
    unfolding u by (simp add: max_def)
  moreover have "1 \<le> maxVisibleGap vis gaps \<longrightarrow>
        mapGapToAngle st (spreadSeconds_circle vis gaps lap) gap / 360 =
          min 1 (gap / max 1 (maxVisibleGap vis gaps))"
    unfolding c by (simp add: max_def)
  ultimately show ?thesis using u c by blast
qed

theorem mapGapToUnit_spread_witness:
  "circleScale (defaultSettings\<lparr>circleScale := spread\<rparr>) = spread \<and> (0::real) < 10
   \<and> maxVisibleGap (visible 0 example_far_field) (computeGapsSeconds example_far_field None) = 20
   \<and> mapGapToUnit (defaultSettings\<lparr>circleScale := spread\<rparr>)
        (spreadSeconds (visible 0 example_far_field) (computeGapsSeconds example_far_field None))
        10 = 1 / 2
   \<and> mapGapToAngle (defaultSettings\<lparr>circleScale := spread\<rparr>)
        (spreadSeconds_circle (visible 0 example_far_field)
           (computeGapsSeconds example_far_field None) 90) 10 / 360 = 1 / 2"
proof -
  let ?st = "defaultSettings\<lparr>circleScale := spread\<rparr>"
  let ?vis = "visible 0 example_far_field"
  let ?gaps = "computeGapsSeconds example_far_field None"
  have s: "circleScale ?st = spread" by (simp add: defaultSettings_def)
  have g: "(0::real) < 10" by simp
  have m: "maxVisibleGap ?vis ?gaps = 20" by code_simp
  note inst = mapGapToUnit_spread [OF s g, of ?vis ?gaps 90]
  from inst have "mapGapToUnit ?st (spreadSeconds ?vis ?gaps) 10 = 1 / 2"
    unfolding m by simp
  moreover from inst have "mapGapToAngle ?st (spreadSeconds_circle ?vis ?gaps 90) 10 / 360 = 1 / 2"
    unfolding m by simp
  ultimately show ?thesis using s g m by blast
qed


text \<open>
  C9: the complete mapping of a gap (mode mapping, stretch, clamp) is monotonically
  non-decreasing in the gap and lies in [0,1]; every dot is placed by it, so a dot with
  a larger gap is never closer to the leader than a dot with a smaller gap.
\<close>

theorem final_coordinate_monotone:
  "(a \<le> b \<longrightarrow> pushTick_unit st vis gaps a \<le> pushTick_unit st vis gaps b)
   \<and> 0 \<le> pushTick_unit st vis gaps a \<and> pushTick_unit st vis gaps a \<le> 1
   \<and> pushTick_unit st vis gaps a =
        min 1 (mapGapToUnit st (spreadSeconds vis gaps) a
               * (if circleScale st = piecewise then piecewiseStretch st vis gaps else 1))
   \<and> (\<forall>i < length vis.
        dot_y (dots st vis gaps ! i) = pushTick_unit st vis gaps (dot_gap (dots st vis gaps ! i))
        \<and> 0 \<le> dot_y (dots st vis gaps ! i) \<and> dot_y (dots st vis gaps ! i) \<le> 1)
   \<and> (\<forall>i < length vis. \<forall>j < length vis.
        dot_gap (dots st vis gaps ! i) \<le> dot_gap (dots st vis gaps ! j) \<longrightarrow>
        dot_y (dots st vis gaps ! i) \<le> dot_y (dots st vis gaps ! j))"
proof -
  have "a \<le> b \<longrightarrow> pushTick_unit st vis gaps a \<le> pushTick_unit st vis gaps b"
    by (simp add: pushTick_unit_mono)
  moreover have "pushTick_unit st vis gaps a =
        min 1 (mapGapToUnit st (spreadSeconds vis gaps) a
               * (if circleScale st = piecewise then piecewiseStretch st vis gaps else 1))"
    by (simp add: pushTick_unit_def)
  moreover have "\<forall>i < length vis.
        dot_y (dots st vis gaps ! i) = pushTick_unit st vis gaps (dot_gap (dots st vis gaps ! i))
        \<and> 0 \<le> dot_y (dots st vis gaps ! i) \<and> dot_y (dots st vis gaps ! i) \<le> 1"
    by (simp add: dots_nth(2,3) pushTick_unit_range)
  moreover have "\<forall>i < length vis. \<forall>j < length vis.
        dot_gap (dots st vis gaps ! i) \<le> dot_gap (dots st vis gaps ! j) \<longrightarrow>
        dot_y (dots st vis gaps ! i) \<le> dot_y (dots st vis gaps ! j)"
    by (simp add: dots_nth(2,3) pushTick_unit_mono)
  ultimately show ?thesis using pushTick_unit_range [of st vis gaps a] by blast
qed

theorem final_coordinate_monotone_witness:
  "(3::real) \<le> 5
   \<and> pushTick_unit (defaultSettings\<lparr>circleG1 := 7\<rparr>) example_mid_field
        (computeGapsSeconds example_mid_field None) 3
      \<le> pushTick_unit (defaultSettings\<lparr>circleG1 := 7\<rparr>) example_mid_field
        (computeGapsSeconds example_mid_field None) 5
   \<and> pushTick_unit (defaultSettings\<lparr>circleG1 := 7\<rparr>) example_mid_field
        (computeGapsSeconds example_mid_field None) 3 = 3 / 5
   \<and> pushTick_unit (defaultSettings\<lparr>circleG1 := 7\<rparr>) example_mid_field
        (computeGapsSeconds example_mid_field None) 5 = 1"
proof -
  let ?st = "defaultSettings\<lparr>circleG1 := 7\<rparr>"
  let ?gaps = "computeGapsSeconds example_mid_field None"
  have h: "(3::real) \<le> 5" by simp
  have v: "pushTick_unit ?st example_mid_field ?gaps 3 = 3 / 5"
    "pushTick_unit ?st example_mid_field ?gaps 5 = 1"
    by code_simp+
  from final_coordinate_monotone [of 3 5 ?st example_mid_field ?gaps] h
  have "pushTick_unit ?st example_mid_field ?gaps 3 \<le> pushTick_unit ?st example_mid_field ?gaps 5"
    by blast
  then show ?thesis using h v by blast
qed

text \<open>
  C10: a cutoff of 0, the store's default, or a negative cutoff shows the whole ordered
  list; a positive cutoff shows exactly the first min(topN, length) drivers in rank
  order.
\<close>

theorem visible_topN:
  "(topN \<le> 0 \<longrightarrow> visible topN ordered = ordered)
   \<and> (0 < topN \<longrightarrow>
        visible topN ordered = take (min (nat topN) (length ordered)) ordered
        \<and> length (visible topN ordered) = min (nat topN) (length ordered))
   \<and> circleTopN defaultSettings = 0
   \<and> visible (circleTopN defaultSettings) ordered = ordered"
  by (simp add: visible_all visible_take defaultSettings_def)

theorem visible_topN_witness:
  "(0::int) \<le> 0 \<and> visible 0 example_field = example_field
   \<and> (0::int) < 2 \<and> visible 2 example_field = take 2 example_field
   \<and> (0::int) < 7 \<and> visible 7 example_field = example_field"
proof -
  have l: "length example_field = 3" by (simp add: example_field_def)
  from visible_topN [of 0 example_field]
  have "visible 0 example_field = example_field" by simp
  moreover from visible_topN [of 2 example_field]
  have "visible 2 example_field = take 2 example_field" by (simp add: l)
  moreover from visible_topN [of 7 example_field]
  have "visible 7 example_field = example_field" by (simp add: l)
  ultimately show ?thesis by simp
qed

end
